theory Spec2Isabelle
  imports Main
begin

section \<open>Outcomes of a call\<close>

text \<open>
  A call of the container returns normally, leaves by an exception, or never produces a
  post-state at all: a failed \<^verbatim>\<open>assert\<close> aborts the program, an operation on an
  object outside its lifetime (destroying storage that holds no object, reading storage
  that holds none) is undefined behaviour, and a failed \<^verbatim>\<open>static_assert\<close> rejects the
  instantiation. The first two carry the state the caller observes afterwards.
\<close>

datatype exn = bad_alloc | element_exception

datatype fault = assertion_failed | undefined_behaviour | static_assertion_failed

datatype ('r, 's) outcome = Normal 'r 's | Throw exn 's | Fault fault

definition and_then :: "('r, 's) outcome \<Rightarrow> ('r \<Rightarrow> 's \<Rightarrow> ('q, 's) outcome) \<Rightarrow> ('q, 's) outcome" where
  "and_then m f = (case m of Normal r s \<Rightarrow> f r s | Throw e s \<Rightarrow> Throw e s | Fault x \<Rightarrow> Fault x)"

definition try_catch :: "('r, 's) outcome \<Rightarrow> (exn \<Rightarrow> 's \<Rightarrow> ('r, 's) outcome) \<Rightarrow> ('r, 's) outcome" where
  "try_catch m handler = (case m of Throw e s \<Rightarrow> handler e s | Normal r s \<Rightarrow> Normal r s | Fault x \<Rightarrow> Fault x)"

definition on_object :: "'v \<Rightarrow> ('r, 'h) outcome \<Rightarrow> ('r, 'v \<times> 'h) outcome" where
  "on_object this m = (case m of Normal r h \<Rightarrow> Normal r (this, h) | Throw e h \<Rightarrow> Throw e (this, h) | Fault x \<Rightarrow> Fault x)"

section \<open>The free store\<close>

text \<open>
  The store holds the objects of the one element type \<^verbatim>\<open>T\<close> of the program. Addresses
  are natural numbers counted in units of one element, that is of \<open>sizeof_T\<close> bytes,
  the value of \<^verbatim>\<open>sizeof(T)\<close>; address 0 is \<^verbatim>\<open>nullptr\<close>. A cell of storage is outside
  every block, allocated but holding no object, or holding a live object. A cell that
  still held a live object when its block was released is marked \<open>Leaked\<close>: its
  destructor never ran.

  \<^verbatim>\<open>operator new\<close> is asked for a number of bytes. It hands out the cells just above
  the break \<open>brk\<close>, the highest address handed out so far, as many as fit the bytes
  asked for, and throws \<open>bad_alloc\<close> past the store's limit; no cell above the break,
  and not the null address, is storage. A request of less than one element still gets an
  address of its own, of a block without a cell. \<^verbatim>\<open>operator delete\<close> of a null pointer
  does nothing.
\<close>

datatype 'a cell = Unallocated | Raw | Live 'a | Leaked 'a

record 'a heap =
  cells :: "nat \<Rightarrow> 'a cell"
  blocks :: "nat \<Rightarrow> nat option"
  brk :: nat
  limit :: nat
  sizeof_T :: nat

definition cell :: "'a heap \<Rightarrow> nat \<Rightarrow> 'a cell" where
  "cell h a = (if 0 < a \<and> a \<le> brk h then cells h a else Unallocated)"

definition operator_new :: "nat \<Rightarrow> 'a heap \<Rightarrow> (nat, 'a heap) outcome" where
  "operator_new count h =
     (let n = count div sizeof_T h in
      if n = 0 then
        (if limit h < brk h + 1 then Throw bad_alloc h
         else Normal (brk h + 1)
                (h\<lparr>cells := (cells h)(brk h + 1 := Unallocated),
                   blocks := (blocks h)(brk h + 1 \<mapsto> 0),
                   brk := brk h + 1\<rparr>))
      else if limit h < brk h + n then Throw bad_alloc h
      else Normal (brk h + 1)
             (h\<lparr>cells := (\<lambda>a. if brk h + 1 \<le> a \<and> a < brk h + 1 + n then Raw else cells h a),
                blocks := (blocks h)(brk h + 1 \<mapsto> n),
                brk := brk h + n\<rparr>))"

fun release :: "'a cell \<Rightarrow> 'a cell" where
  "release (Live v) = Leaked v"
| "release (Leaked v) = Leaked v"
| "release Raw = Unallocated"
| "release Unallocated = Unallocated"

definition operator_delete :: "nat \<Rightarrow> 'a heap \<Rightarrow> (unit, 'a heap) outcome" where
  "operator_delete buf h =
     (if buf = 0 then Normal () h
      else case blocks h buf of
             None \<Rightarrow> Fault undefined_behaviour
           | Some n \<Rightarrow>
               Normal ()
                 (h\<lparr>cells := (\<lambda>a. if buf \<le> a \<and> a < buf + n then release (cells h a) else cells h a),
                    blocks := (blocks h)(buf := None)\<rparr>))"

section \<open>The element type\<close>

text \<open>
  The container is a template over the element type \<^verbatim>\<open>T\<close>. What the code asks of
  \<^verbatim>\<open>T\<close> is collected here: the three traits the \<^verbatim>\<open>if constexpr\<close> branches test, which
  values make a copy or a move throw, the value \<^verbatim>\<open>T()\<close> yields (or \<open>None\<close> when it
  throws), and the state a moved-from object is left in. A copy yields an object equal to
  its source; a move yields the source's value and leaves the source moved-from. A move
  constructor declared non-throwing never throws.
\<close>

record 'a element_type =
  is_nothrow_move_constructible :: bool
  is_copy_constructible :: bool
  is_move_constructible :: bool
  copy_ctor_throws :: "'a \<Rightarrow> bool"
  move_ctor_throws :: "'a \<Rightarrow> bool"
  copy_assign_throws :: "'a \<Rightarrow> bool"
  move_assign_throws :: "'a \<Rightarrow> bool"
  value_init :: "'a option"
  moved_from :: "'a \<Rightarrow> 'a"

definition move_throws :: "'a element_type \<Rightarrow> 'a \<Rightarrow> bool" where
  "move_throws T v = (\<not> is_nothrow_move_constructible T \<and> move_ctor_throws T v)"

text \<open>
  The arguments forwarded to a constructor of \<^verbatim>\<open>T\<close>: a \<^verbatim>\<open>const T&\<close> or a \<^verbatim>\<open>T&&\<close>
  bound to the object at the given address of the store, which may be an element of the
  array itself, or any other argument list, of which only the result matters: the value
  built, or \<open>None\<close> when the constructor throws.
\<close>

datatype 'a forwarded = ConstRef nat | RvalueRef nat | CtorArgs "'a option"

section \<open>Object lifetime in raw storage\<close>

text \<open>
  \<open>construct_from\<close> runs the constructor \<^verbatim>\<open>T(std::forward<Args>(args)...)\<close>: it yields
  the value of the new object, or throws. A reference is read where it points at that
  moment, and an rvalue is left moved-from in the store; a reference to storage that holds
  no object is undefined behaviour.
\<close>

definition construct_from :: "'a element_type \<Rightarrow> 'a forwarded \<Rightarrow> 'a heap \<Rightarrow> ('a, 'a heap) outcome" where
  "construct_from T args h =
     (case args of
        ConstRef a \<Rightarrow>
          (case cell h a of
             Live v \<Rightarrow> if copy_ctor_throws T v then Throw element_exception h else Normal v h
           | _ \<Rightarrow> Fault undefined_behaviour)
      | RvalueRef a \<Rightarrow>
          (case cell h a of
             Live v \<Rightarrow>
               if move_throws T v then Throw element_exception h
               else Normal v (h\<lparr>cells := (cells h)(a := Live (moved_from T v))\<rparr>)
           | _ \<Rightarrow> Fault undefined_behaviour)
      | CtorArgs r \<Rightarrow>
          (case r of None \<Rightarrow> Throw element_exception h | Some v \<Rightarrow> Normal v h))"

definition construct_at :: "nat \<Rightarrow> 'a \<Rightarrow> 'a heap \<Rightarrow> (unit, 'a heap) outcome" where
  "construct_at p v h =
     (case cell h p of
        Raw \<Rightarrow> Normal () (h\<lparr>cells := (cells h)(p := Live v)\<rparr>)
      | _ \<Rightarrow> Fault undefined_behaviour)"

definition destroy_at :: "nat \<Rightarrow> 'a heap \<Rightarrow> (unit, 'a heap) outcome" where
  "destroy_at p h =
     (case cell h p of
        Live v \<Rightarrow> Normal () (h\<lparr>cells := (cells h)(p := Raw)\<rparr>)
      | _ \<Rightarrow> Fault undefined_behaviour)"

definition construct_args :: "'a element_type \<Rightarrow> nat \<Rightarrow> 'a forwarded \<Rightarrow> 'a heap \<Rightarrow> (unit, 'a heap) outcome" where
  "construct_args T p args h = and_then (construct_from T args h) (\<lambda>v. construct_at p v)"

definition value_construct :: "'a element_type \<Rightarrow> nat \<Rightarrow> 'a heap \<Rightarrow> (unit, 'a heap) outcome" where
  "value_construct T p h =
     (case value_init T of None \<Rightarrow> Throw element_exception h | Some v \<Rightarrow> construct_at p v h)"

definition copy_construct :: "'a element_type \<Rightarrow> nat \<Rightarrow> nat \<Rightarrow> 'a heap \<Rightarrow> (unit, 'a heap) outcome" where
  "copy_construct T dst src h =
     (case cell h src of
        Live v \<Rightarrow> if copy_ctor_throws T v then Throw element_exception h else construct_at dst v h
      | _ \<Rightarrow> Fault undefined_behaviour)"

definition move_construct :: "'a element_type \<Rightarrow> nat \<Rightarrow> nat \<Rightarrow> 'a heap \<Rightarrow> (unit, 'a heap) outcome" where
  "move_construct T dst src h =
     (case cell h src of
        Live v \<Rightarrow>
          if move_throws T v then Throw element_exception h
          else and_then (construct_at dst v h)
                 (\<lambda>_ h1. Normal () (h1\<lparr>cells := (cells h1)(src := Live (moved_from T v))\<rparr>))
      | _ \<Rightarrow> Fault undefined_behaviour)"

definition copy_assign :: "'a element_type \<Rightarrow> nat \<Rightarrow> nat \<Rightarrow> 'a heap \<Rightarrow> (unit, 'a heap) outcome" where
  "copy_assign T dst src h =
     (case (cell h dst, cell h src) of
        (Live w, Live v) \<Rightarrow>
          if copy_assign_throws T v then Throw element_exception h
          else Normal () (h\<lparr>cells := (cells h)(dst := Live v)\<rparr>)
      | _ \<Rightarrow> Fault undefined_behaviour)"

definition move_assign :: "'a element_type \<Rightarrow> nat \<Rightarrow> nat \<Rightarrow> 'a heap \<Rightarrow> (unit, 'a heap) outcome" where
  "move_assign T dst src h =
     (case (cell h dst, cell h src) of
        (Live w, Live v) \<Rightarrow>
          if move_assign_throws T v then Throw element_exception h
          else Normal () (h\<lparr>cells := (cells h)(src := Live (moved_from T v), dst := Live v)\<rparr>)
      | _ \<Rightarrow> Fault undefined_behaviour)"

definition move_assign_value :: "'a element_type \<Rightarrow> nat \<Rightarrow> 'a \<Rightarrow> 'a heap \<Rightarrow> (unit, 'a heap) outcome" where
  "move_assign_value T dst v h =
     (case cell h dst of
        Live w \<Rightarrow>
          if move_assign_throws T v then Throw element_exception h
          else Normal () (h\<lparr>cells := (cells h)(dst := Live v)\<rparr>)
      | _ \<Rightarrow> Fault undefined_behaviour)"

section \<open>The standard algorithms the container calls\<close>

text \<open>
  The \<^verbatim>\<open>uninitialized_*\<close> algorithms construct one object after the other and, when a
  construction throws, destroy the objects they have constructed and rethrow. The
  assignments of \<^verbatim>\<open>std::copy\<close>, \<^verbatim>\<open>std::move\<close> and \<^verbatim>\<open>std::move_backward\<close> have no
  such rollback. A range whose end lies before its start is undefined behaviour.
\<close>

fun destroy_n :: "nat \<Rightarrow> nat \<Rightarrow> 'a heap \<Rightarrow> (unit, 'a heap) outcome" where
  "destroy_n first 0 h = Normal () h"
| "destroy_n first (Suc n) h = and_then (destroy_at first h) (\<lambda>_. destroy_n (first + 1) n)"

fun uninitialized_value_construct_n :: "'a element_type \<Rightarrow> nat \<Rightarrow> nat \<Rightarrow> 'a heap \<Rightarrow> (unit, 'a heap) outcome" where
  "uninitialized_value_construct_n T first 0 h = Normal () h"
| "uninitialized_value_construct_n T first (Suc n) h =
     and_then (value_construct T first h)
       (\<lambda>_ h1. try_catch (uninitialized_value_construct_n T (first + 1) n h1)
                 (\<lambda>e h2. and_then (destroy_at first h2) (\<lambda>_. Throw e)))"

fun uninitialized_copy_n :: "'a element_type \<Rightarrow> nat \<Rightarrow> nat \<Rightarrow> nat \<Rightarrow> 'a heap \<Rightarrow> (unit, 'a heap) outcome" where
  "uninitialized_copy_n T first 0 d_first h = Normal () h"
| "uninitialized_copy_n T first (Suc n) d_first h =
     and_then (copy_construct T d_first first h)
       (\<lambda>_ h1. try_catch (uninitialized_copy_n T (first + 1) n (d_first + 1) h1)
                 (\<lambda>e h2. and_then (destroy_at d_first h2) (\<lambda>_. Throw e)))"

fun uninitialized_move_n :: "'a element_type \<Rightarrow> nat \<Rightarrow> nat \<Rightarrow> nat \<Rightarrow> 'a heap \<Rightarrow> (unit, 'a heap) outcome" where
  "uninitialized_move_n T first 0 d_first h = Normal () h"
| "uninitialized_move_n T first (Suc n) d_first h =
     and_then (move_construct T d_first first h)
       (\<lambda>_ h1. try_catch (uninitialized_move_n T (first + 1) n (d_first + 1) h1)
                 (\<lambda>e h2. and_then (destroy_at d_first h2) (\<lambda>_. Throw e)))"

fun copy_loop :: "'a element_type \<Rightarrow> nat \<Rightarrow> nat \<Rightarrow> nat \<Rightarrow> 'a heap \<Rightarrow> (unit, 'a heap) outcome" where
  "copy_loop T first 0 d_first h = Normal () h"
| "copy_loop T first (Suc n) d_first h =
     and_then (copy_assign T d_first first h) (\<lambda>_. copy_loop T (first + 1) n (d_first + 1))"

definition std_copy :: "'a element_type \<Rightarrow> nat \<Rightarrow> nat \<Rightarrow> nat \<Rightarrow> 'a heap \<Rightarrow> (unit, 'a heap) outcome" where
  "std_copy T first last' d_first h =
     (if last' < first then Fault undefined_behaviour else copy_loop T first (last' - first) d_first h)"

fun move_loop :: "'a element_type \<Rightarrow> nat \<Rightarrow> nat \<Rightarrow> nat \<Rightarrow> 'a heap \<Rightarrow> (unit, 'a heap) outcome" where
  "move_loop T first 0 d_first h = Normal () h"
| "move_loop T first (Suc n) d_first h =
     and_then (move_assign T d_first first h) (\<lambda>_. move_loop T (first + 1) n (d_first + 1))"

definition std_move :: "'a element_type \<Rightarrow> nat \<Rightarrow> nat \<Rightarrow> nat \<Rightarrow> 'a heap \<Rightarrow> (unit, 'a heap) outcome" where
  "std_move T first last' d_first h =
     (if last' < first then Fault undefined_behaviour else move_loop T first (last' - first) d_first h)"

fun move_backward_loop :: "'a element_type \<Rightarrow> nat \<Rightarrow> nat \<Rightarrow> nat \<Rightarrow> 'a heap \<Rightarrow> (unit, 'a heap) outcome" where
  "move_backward_loop T last' 0 d_last h = Normal () h"
| "move_backward_loop T last' (Suc n) d_last h =
     and_then (move_assign T (d_last - 1) (last' - 1) h)
       (\<lambda>_. move_backward_loop T (last' - 1) n (d_last - 1))"

definition std_move_backward :: "'a element_type \<Rightarrow> nat \<Rightarrow> nat \<Rightarrow> nat \<Rightarrow> 'a heap \<Rightarrow> (unit, 'a heap) outcome" where
  "std_move_backward T first last' d_last h =
     (if last' < first then Fault undefined_behaviour
      else move_backward_loop T last' (last' - first) d_last h)"

section \<open>RawMemory\<close>

text \<open>
  An Isabelle name cannot end in an underscore: the members \<^verbatim>\<open>buffer_\<close>,
  \<^verbatim>\<open>capacity_\<close>, \<^verbatim>\<open>data_\<close> and \<^verbatim>\<open>size_\<close> are written with the suffix \<open>_m\<close>.
  \<^verbatim>\<open>operator+\<close> and \<^verbatim>\<open>operator[]\<close> return an address or fail their assertion.
  \<^verbatim>\<open>Allocate\<close> computes the number of bytes \<^verbatim>\<open>n * sizeof(T)\<close> in \<^verbatim>\<open>size_t\<close>, where
  it wraps at \<open>2 ^ 64\<close>: the block it gets may then be smaller than \<open>n\<close> elements.
\<close>

record RawMemory =
  buffer_m :: nat
  capacity_m :: nat

definition Allocate :: "nat \<Rightarrow> 'a heap \<Rightarrow> (nat, 'a heap) outcome" where
  "Allocate n h = (if n \<noteq> 0 then operator_new ((n * sizeof_T h) mod 2 ^ 64) h else Normal 0 h)"

definition Deallocate :: "nat \<Rightarrow> 'a heap \<Rightarrow> (unit, 'a heap) outcome" where
  "Deallocate buf h = operator_delete buf h"

definition RawMemory_default :: RawMemory where
  "RawMemory_default = \<lparr>buffer_m = 0, capacity_m = 0\<rparr>"

definition RawMemory_ctor :: "nat \<Rightarrow> 'a heap \<Rightarrow> (RawMemory, 'a heap) outcome" where
  "RawMemory_ctor capacity h =
     and_then (Allocate capacity h) (\<lambda>buf. Normal \<lparr>buffer_m = buf, capacity_m = capacity\<rparr>)"

definition RawMemory_move_ctor :: "RawMemory \<Rightarrow> RawMemory \<times> RawMemory" where
  "RawMemory_move_ctor other =
     (\<lparr>buffer_m = buffer_m other, capacity_m = capacity_m other\<rparr>,
      other\<lparr>buffer_m := 0, capacity_m := 0\<rparr>)"

definition RawMemory_Swap :: "RawMemory \<times> RawMemory \<Rightarrow> RawMemory \<times> RawMemory" where
  "RawMemory_Swap p =
     (case p of (this, other) \<Rightarrow>
        (this\<lparr>buffer_m := buffer_m other, capacity_m := capacity_m other\<rparr>,
         other\<lparr>buffer_m := buffer_m this, capacity_m := capacity_m this\<rparr>))"

text \<open>
  Move assignment compares the addresses of the two objects, so it is modelled on a store
  of \<^verbatim>\<open>RawMemory\<close> objects, \<open>this\<close> and \<open>rhs\<close> being the addresses of two of them.
\<close>

definition RawMemory_move_assign :: "nat \<Rightarrow> nat \<Rightarrow> (nat \<Rightarrow> RawMemory) \<Rightarrow> (nat \<Rightarrow> RawMemory)" where
  "RawMemory_move_assign this rhs objs =
     (if this \<noteq> rhs
      then (case RawMemory_Swap (objs this, objs rhs) of (a, b) \<Rightarrow> objs(this := a, rhs := b))
      else objs)"

definition RawMemory_dtor :: "RawMemory \<Rightarrow> 'a heap \<Rightarrow> (unit, 'a heap) outcome" where
  "RawMemory_dtor this h = Deallocate (buffer_m this) h"

definition RawMemory_plus :: "RawMemory \<Rightarrow> nat \<Rightarrow> fault + nat" where
  "RawMemory_plus this offset =
     (if offset \<le> capacity_m this then Inr (buffer_m this + offset) else Inl assertion_failed)"

definition RawMemory_at :: "RawMemory \<Rightarrow> nat \<Rightarrow> fault + nat" where
  "RawMemory_at this index =
     (if index < capacity_m this then Inr (buffer_m this + index) else Inl assertion_failed)"

definition GetAddress :: "RawMemory \<Rightarrow> nat" where
  "GetAddress this = buffer_m this"

definition RawMemory_Capacity :: "RawMemory \<Rightarrow> nat" where
  "RawMemory_Capacity this = capacity_m this"

definition with_address :: "fault + nat \<Rightarrow> (nat \<Rightarrow> ('r, 's) outcome) \<Rightarrow> ('r, 's) outcome" where
  "with_address p f = (case p of Inl x \<Rightarrow> Fault x | Inr a \<Rightarrow> f a)"

section \<open>Vector\<close>

record Vector =
  data_m :: RawMemory
  size_m :: nat

definition Vector_begin :: "Vector \<Rightarrow> nat" where
  "Vector_begin this = GetAddress (data_m this)"

definition Vector_end :: "Vector \<Rightarrow> nat" where
  "Vector_end this = GetAddress (data_m this) + size_m this"

definition Size :: "Vector \<Rightarrow> nat" where
  "Size this = size_m this"

definition Capacity :: "Vector \<Rightarrow> nat" where
  "Capacity this = RawMemory_Capacity (data_m this)"

definition Vector_at :: "Vector \<Rightarrow> nat \<Rightarrow> fault + nat" where
  "Vector_at this index =
     (if index < size_m this then RawMemory_at (data_m this) index else Inl assertion_failed)"

subsection \<open>Construction, destruction, swap\<close>

text \<open>
  When the body of a constructor throws, the members constructed so far are destroyed:
  the storage of \<^verbatim>\<open>data_\<close> is released and no object comes into being.
\<close>

definition Vector_default :: Vector where
  "Vector_default = \<lparr>data_m = RawMemory_default, size_m = 0\<rparr>"

definition Vector_ctor_size :: "'a element_type \<Rightarrow> nat \<Rightarrow> 'a heap \<Rightarrow> (Vector, 'a heap) outcome" where
  "Vector_ctor_size T size' h =
     and_then (RawMemory_ctor size' h)
       (\<lambda>data h1.
          and_then
            (try_catch (uninitialized_value_construct_n T (GetAddress data) size' h1)
               (\<lambda>e h2. and_then (RawMemory_dtor data h2) (\<lambda>_. Throw e)))
            (\<lambda>_. Normal \<lparr>data_m = data, size_m = size'\<rparr>))"

definition Vector_copy_ctor :: "'a element_type \<Rightarrow> Vector \<Rightarrow> 'a heap \<Rightarrow> (Vector, 'a heap) outcome" where
  "Vector_copy_ctor T other h =
     and_then (RawMemory_ctor (size_m other) h)
       (\<lambda>data h1.
          and_then
            (try_catch
               (uninitialized_copy_n T (GetAddress (data_m other)) (size_m other) (GetAddress data) h1)
               (\<lambda>e h2. and_then (RawMemory_dtor data h2) (\<lambda>_. Throw e)))
            (\<lambda>_. Normal \<lparr>data_m = data, size_m = size_m other\<rparr>))"

definition Vector_move_ctor :: "Vector \<Rightarrow> Vector \<times> Vector" where
  "Vector_move_ctor other =
     (case RawMemory_move_ctor (data_m other) of
        (d, od) \<Rightarrow> (\<lparr>data_m = d, size_m = size_m other\<rparr>, other\<lparr>data_m := od, size_m := 0\<rparr>))"

definition Vector_Swap :: "Vector \<times> Vector \<Rightarrow> Vector \<times> Vector" where
  "Vector_Swap p =
     (case p of (this, other) \<Rightarrow>
        (case RawMemory_Swap (data_m this, data_m other) of
           (d, od) \<Rightarrow>
             (this\<lparr>data_m := d, size_m := size_m other\<rparr>,
              other\<lparr>data_m := od, size_m := size_m this\<rparr>)))"

definition Vector_dtor :: "Vector \<Rightarrow> 'a heap \<Rightarrow> (unit, 'a heap) outcome" where
  "Vector_dtor this h =
     and_then (destroy_n (GetAddress (data_m this)) (size_m this) h)
       (\<lambda>_. RawMemory_dtor (data_m this))"

subsection \<open>Assignment\<close>

definition CopyAssignNoRealloc :: "'a element_type \<Rightarrow> Vector \<Rightarrow> Vector \<Rightarrow> 'a heap \<Rightarrow> (unit, Vector \<times> 'a heap) outcome" where
  "CopyAssignNoRealloc T this rhs h =
     (let common = min (size_m this) (size_m rhs) in
      with_address (RawMemory_plus (data_m rhs) common)
        (\<lambda>last'.
           case and_then (std_copy T (GetAddress (data_m rhs)) last' (GetAddress (data_m this)) h)
                  (\<lambda>_. if size_m this > size_m rhs
                        then destroy_n (GetAddress (data_m this) + size_m rhs) (size_m this - size_m rhs)
                        else uninitialized_copy_n T (GetAddress (data_m rhs) + size_m this)
                               (size_m rhs - size_m this) (GetAddress (data_m this) + size_m this)) of
             Normal _ h1 \<Rightarrow> Normal () (this\<lparr>size_m := size_m rhs\<rparr>, h1)
           | Throw e h1 \<Rightarrow> Throw e (this, h1)
           | Fault x \<Rightarrow> Fault x))"

text \<open>
  Both assignment operators compare the addresses of the two arrays, so they work on a
  store of \<^verbatim>\<open>Vector\<close> objects; \<open>this\<close> and \<open>rhs\<close> are the addresses of two of them.
  The temporary of the copy assignment is destroyed when its block ends.
\<close>

definition Vector_copy_assign :: "'a element_type \<Rightarrow> nat \<Rightarrow> nat \<Rightarrow> (nat \<Rightarrow> Vector) \<Rightarrow> 'a heap \<Rightarrow> (unit, (nat \<Rightarrow> Vector) \<times> 'a heap) outcome" where
  "Vector_copy_assign T this rhs objs h =
     (if this \<noteq> rhs then
        (if size_m (objs rhs) > RawMemory_Capacity (data_m (objs this)) then
           (case Vector_copy_ctor T (objs rhs) h of
              Normal tmp h1 \<Rightarrow>
                (case Vector_Swap (objs this, tmp) of
                   (this', tmp') \<Rightarrow> on_object (objs(this := this')) (Vector_dtor tmp' h1))
            | Throw e h1 \<Rightarrow> Throw e (objs, h1)
            | Fault x \<Rightarrow> Fault x)
         else
           (case CopyAssignNoRealloc T (objs this) (objs rhs) h of
              Normal r s \<Rightarrow> Normal r (objs(this := fst s), snd s)
            | Throw e s \<Rightarrow> Throw e (objs(this := fst s), snd s)
            | Fault x \<Rightarrow> Fault x))
      else Normal () (objs, h))"

definition Vector_move_assign :: "nat \<Rightarrow> nat \<Rightarrow> (nat \<Rightarrow> Vector) \<Rightarrow> (nat \<Rightarrow> Vector)" where
  "Vector_move_assign this rhs objs =
     (if this \<noteq> rhs
      then (case Vector_Swap (objs this, objs rhs) of (a, b) \<Rightarrow> objs(this := a, rhs := b))
      else objs)"

subsection \<open>Capacity and size\<close>

definition Reserve :: "'a element_type \<Rightarrow> nat \<Rightarrow> Vector \<Rightarrow> 'a heap \<Rightarrow> (unit, Vector \<times> 'a heap) outcome" where
  "Reserve T new_capacity this h =
     (if new_capacity \<le> RawMemory_Capacity (data_m this) then Normal () (this, h)
      else
        (case RawMemory_ctor new_capacity h of
           Normal new_data h1 \<Rightarrow>
             (case and_then
                     (if is_nothrow_move_constructible T then
                        uninitialized_move_n T (GetAddress (data_m this)) (size_m this) (GetAddress new_data) h1
                      else if is_copy_constructible T then
                        uninitialized_copy_n T (GetAddress (data_m this)) (size_m this) (GetAddress new_data) h1
                      else if is_move_constructible T then
                        uninitialized_move_n T (GetAddress (data_m this)) (size_m this) (GetAddress new_data) h1
                      else Fault static_assertion_failed)
                     (\<lambda>_. destroy_n (GetAddress (data_m this)) (size_m this)) of
                Normal _ h2 \<Rightarrow>
                  (case RawMemory_Swap (data_m this, new_data) of
                     (d, old) \<Rightarrow> on_object (this\<lparr>data_m := d\<rparr>) (RawMemory_dtor old h2))
              | Throw e h2 \<Rightarrow> on_object this (and_then (RawMemory_dtor new_data h2) (\<lambda>_. Throw e))
              | Fault x \<Rightarrow> Fault x)
         | Throw e h1 \<Rightarrow> Throw e (this, h1)
         | Fault x \<Rightarrow> Fault x))"

definition Resize :: "'a element_type \<Rightarrow> nat \<Rightarrow> Vector \<Rightarrow> 'a heap \<Rightarrow> (unit, Vector \<times> 'a heap) outcome" where
  "Resize T new_size this h =
     (if new_size > size_m this then
        and_then (Reserve T new_size this h)
          (\<lambda>_ s.
             case uninitialized_value_construct_n T (GetAddress (data_m (fst s)) + size_m (fst s))
                    (new_size - size_m (fst s)) (snd s) of
               Normal _ h2 \<Rightarrow> Normal () ((fst s)\<lparr>size_m := new_size\<rparr>, h2)
             | Throw e h2 \<Rightarrow> Throw e (fst s, h2)
             | Fault x \<Rightarrow> Fault x)
      else
        (case destroy_n (GetAddress (data_m this) + new_size) (size_m this - new_size) h of
           Normal _ h1 \<Rightarrow> Normal () (this\<lparr>size_m := new_size\<rparr>, h1)
         | Throw e h1 \<Rightarrow> Throw e (this, h1)
         | Fault x \<Rightarrow> Fault x))"

subsection \<open>Appending and removing at the end\<close>

text \<open>
  \<^verbatim>\<open>size_ * 2\<close> is computed in \<^verbatim>\<open>size_t\<close> and wraps at \<open>2 ^ 64\<close>. The local
  \<^verbatim>\<open>new_data\<close> is destroyed when its block ends, normally or by the exception: by then
  it owns the old storage (after the swap) or the new one (when relocation threw).
\<close>

definition EmplaceBack :: "'a element_type \<Rightarrow> 'a forwarded \<Rightarrow> Vector \<Rightarrow> 'a heap \<Rightarrow> (nat, Vector \<times> 'a heap) outcome" where
  "EmplaceBack T args this h =
     and_then
       (if size_m this = Capacity this then
          (case RawMemory_ctor (if size_m this = 0 then 1 else (size_m this * 2) mod 2 ^ 64) h of
             Normal new_data h1 \<Rightarrow>
               (case and_then
                       (with_address (RawMemory_plus new_data (size_m this))
                          (\<lambda>p. and_then (construct_args T p args h1)
                             (\<lambda>_ h2.
                                try_catch
                                  (if is_nothrow_move_constructible T \<or> \<not> is_copy_constructible T then
                                     uninitialized_move_n T (GetAddress (data_m this)) (size_m this) (GetAddress new_data) h2
                                   else
                                     uninitialized_copy_n T (GetAddress (data_m this)) (size_m this) (GetAddress new_data) h2)
                                  (\<lambda>e h3. with_address (RawMemory_plus new_data (size_m this))
                                     (\<lambda>q. and_then (destroy_at q h3) (\<lambda>_. Throw e))))))
                       (\<lambda>_. destroy_n (GetAddress (data_m this)) (size_m this)) of
                  Normal _ h4 \<Rightarrow>
                    (case RawMemory_Swap (data_m this, new_data) of
                       (d, old) \<Rightarrow> on_object (this\<lparr>data_m := d\<rparr>) (RawMemory_dtor old h4))
                | Throw e h4 \<Rightarrow> on_object this (and_then (RawMemory_dtor new_data h4) (\<lambda>_. Throw e))
                | Fault x \<Rightarrow> Fault x)
           | Throw e h1 \<Rightarrow> Throw e (this, h1)
           | Fault x \<Rightarrow> Fault x)
        else
          with_address (RawMemory_plus (data_m this) (size_m this))
            (\<lambda>p. on_object this (and_then (construct_args T p args h) (\<lambda>_. Normal ()))))
       (\<lambda>_ s.
          with_address (RawMemory_at (data_m (fst s)) (size_m (fst s) + 1 - 1))
            (\<lambda>r. Normal r ((fst s)\<lparr>size_m := size_m (fst s) + 1\<rparr>, snd s)))"

definition PushBack_copy :: "'a element_type \<Rightarrow> nat \<Rightarrow> Vector \<Rightarrow> 'a heap \<Rightarrow> (unit, Vector \<times> 'a heap) outcome" where
  "PushBack_copy T value this h = and_then (EmplaceBack T (ConstRef value) this h) (\<lambda>_. Normal ())"

definition PushBack_move :: "'a element_type \<Rightarrow> nat \<Rightarrow> Vector \<Rightarrow> 'a heap \<Rightarrow> (unit, Vector \<times> 'a heap) outcome" where
  "PushBack_move T value this h = and_then (EmplaceBack T (RvalueRef value) this h) (\<lambda>_. Normal ())"

definition PopBack :: "Vector \<Rightarrow> 'a heap \<Rightarrow> (unit, Vector \<times> 'a heap) outcome" where
  "PopBack this h =
     (if size_m this > 0 then
        (case destroy_at (GetAddress (data_m this) + size_m this - 1) h of
           Normal _ h1 \<Rightarrow> Normal () (this\<lparr>size_m := size_m this - 1\<rparr>, h1)
         | Throw e h1 \<Rightarrow> Throw e (this, h1)
         | Fault x \<Rightarrow> Fault x)
      else Normal () (this, h))"

subsection \<open>Insertion and removal at a position\<close>

text \<open>
  An iterator is the address of a cell. The in-place path builds the local \<^verbatim>\<open>tmp\<close>
  from the forwarded arguments first; on an empty array it then forwards the same
  arguments a second time, in the store the first construction has left. The parameter
  \<^verbatim>\<open>value\<close> of PushBack and Insert is a reference: the address of the caller's object.
\<close>

definition Emplace :: "'a element_type \<Rightarrow> nat \<Rightarrow> 'a forwarded \<Rightarrow> Vector \<Rightarrow> 'a heap \<Rightarrow> (nat, Vector \<times> 'a heap) outcome" where
  "Emplace T pos args this h =
     (if \<not> (Vector_begin this \<le> pos \<and> pos < Vector_end this) then Fault assertion_failed
      else
        let index = pos - Vector_begin this in
        if size_m this = Capacity this then
          (case RawMemory_ctor (if size_m this = 0 then 1 else (size_m this * 2) mod 2 ^ 64) h of
             Normal new_data h1 \<Rightarrow>
               let new_pos = GetAddress new_data + index in
               (case and_then
                       (try_catch
                          (and_then
                             (uninitialized_move_n T (GetAddress (data_m this)) index (GetAddress new_data) h1)
                             (\<lambda>_ h2. and_then (construct_args T new_pos args h2)
                                (\<lambda>_. uninitialized_move_n T (GetAddress (data_m this) + index)
                                        (size_m this - index) (new_pos + 1))))
                          (\<lambda>e h3. and_then (destroy_n (GetAddress new_data) index h3) (\<lambda>_. Throw e)))
                       (\<lambda>_. destroy_n (GetAddress (data_m this)) (size_m this)) of
                  Normal _ h4 \<Rightarrow>
                    (case RawMemory_Swap (data_m this, new_data) of
                       (d, old) \<Rightarrow>
                         let this1 = this\<lparr>data_m := d, size_m := size_m this + 1\<rparr> in
                         and_then (on_object this1 (RawMemory_dtor old h4))
                           (\<lambda>_. Normal (Vector_begin this1 + index)))
                | Throw e h4 \<Rightarrow> on_object this (and_then (RawMemory_dtor new_data h4) (\<lambda>_. Throw e))
                | Fault x \<Rightarrow> Fault x)
           | Throw e h1 \<Rightarrow> Throw e (this, h1)
           | Fault x \<Rightarrow> Fault x)
        else
          (case construct_from T args h of
             Throw e h0 \<Rightarrow> Throw e (this, h0)
           | Fault x \<Rightarrow> Fault x
           | Normal tmp h0 \<Rightarrow>
               and_then
                 (on_object this
                    (if size_m this \<noteq> 0 then
                       with_address (RawMemory_plus (data_m this) (size_m this))
                         (\<lambda>p_end. with_address (RawMemory_at (data_m this) (size_m this - 1))
                            (\<lambda>p_back. and_then (move_construct T p_end p_back h0)
                               (\<lambda>_ h1.
                                  try_catch
                                    (with_address (RawMemory_plus (data_m this) index)
                                       (\<lambda>first. with_address (RawMemory_plus (data_m this) (size_m this))
                                          (\<lambda>e1. with_address (RawMemory_plus (data_m this) (size_m this))
                                             (\<lambda>d_last. and_then (std_move_backward T first (e1 - 1) d_last h1)
                                                (\<lambda>_ h2. with_address (RawMemory_at (data_m this) index)
                                                   (\<lambda>q. move_assign_value T q tmp h2))))))
                                    (\<lambda>e h3. with_address (RawMemory_plus (data_m this) (size_m this))
                                       (\<lambda>p. and_then (destroy_at p h3) (\<lambda>_. Throw e))))))
                     else
                       with_address (RawMemory_plus (data_m this) index)
                         (\<lambda>p. and_then (construct_args T p args h0) (\<lambda>_. Normal ()))))
                 (\<lambda>_ s. Normal (Vector_begin (fst s) + index)
                           ((fst s)\<lparr>size_m := size_m (fst s) + 1\<rparr>, snd s))))"

definition Insert_copy :: "'a element_type \<Rightarrow> nat \<Rightarrow> nat \<Rightarrow> Vector \<Rightarrow> 'a heap \<Rightarrow> (nat, Vector \<times> 'a heap) outcome" where
  "Insert_copy T pos value this h = Emplace T pos (ConstRef value) this h"

definition Insert_move :: "'a element_type \<Rightarrow> nat \<Rightarrow> nat \<Rightarrow> Vector \<Rightarrow> 'a heap \<Rightarrow> (nat, Vector \<times> 'a heap) outcome" where
  "Insert_move T pos value this h = Emplace T pos (RvalueRef value) this h"

definition Erase :: "'a element_type \<Rightarrow> nat \<Rightarrow> Vector \<Rightarrow> 'a heap \<Rightarrow> (nat, Vector \<times> 'a heap) outcome" where
  "Erase T pos this h =
     (if \<not> (Vector_begin this \<le> pos \<and> pos < Vector_end this) then Fault assertion_failed
      else
        (case std_move T (pos + 1) (Vector_end this) pos h of
           Normal _ h1 \<Rightarrow>
             (let this1 = this\<lparr>size_m := size_m this - 1\<rparr> in
              with_address (RawMemory_plus (data_m this1) (size_m this1))
                (\<lambda>p. on_object this1 (and_then (destroy_at p h1) (\<lambda>_. Normal pos))))
         | Throw e h1 \<Rightarrow> Throw e (this, h1)
         | Fault x \<Rightarrow> Fault x))"

section \<open>Element types and arrays for the examples\<close>

text \<open>
  \<open>String\<close> behaves like \<^verbatim>\<open>std::string\<close>: its move constructor cannot throw and
  leaves the source empty (0); copying the value 13 throws. \<open>Obj\<close> is the same with a
  move constructor that may throw, also on 13; \<open>MoveOnly\<close> has no copy constructor.
  \<open>two_cells a b\<close> is a store of elements of 4 bytes with one block, at address 1, of
  two live objects, and \<open>full2\<close> the full array that owns it.
\<close>

definition String :: "nat element_type" where
  "String = \<lparr>is_nothrow_move_constructible = True, is_copy_constructible = True,
     is_move_constructible = True, copy_ctor_throws = (\<lambda>v. v = 13),
     move_ctor_throws = (\<lambda>v. False), copy_assign_throws = (\<lambda>v. v = 13),
     move_assign_throws = (\<lambda>v. False), value_init = Some 0, moved_from = (\<lambda>v. 0)\<rparr>"

definition Obj :: "nat element_type" where
  "Obj = \<lparr>is_nothrow_move_constructible = False, is_copy_constructible = True,
     is_move_constructible = True, copy_ctor_throws = (\<lambda>v. v = 13),
     move_ctor_throws = (\<lambda>v. v = 13), copy_assign_throws = (\<lambda>v. v = 13),
     move_assign_throws = (\<lambda>v. v = 13), value_init = Some 0, moved_from = (\<lambda>v. 0)\<rparr>"

definition MoveOnly :: "nat element_type" where
  "MoveOnly = Obj\<lparr>is_copy_constructible := False\<rparr>"

definition two_cells :: "nat \<Rightarrow> nat \<Rightarrow> nat heap" where
  "two_cells a b =
     \<lparr>cells = (\<lambda>_. Unallocated)(1 := Live a, 2 := Live b), blocks = Map.empty(1 \<mapsto> 2),
      brk = 2, limit = 100, sizeof_T = 4\<rparr>"

definition full2 :: Vector where
  "full2 = \<lparr>data_m = \<lparr>buffer_m = 1, capacity_m = 2\<rparr>, size_m = 2\<rparr>"

text \<open>
  \<open>three_cells a b c\<close> has a second block, at address 3, of one live object, owned by the
  array \<open>single3\<close>; \<open>two_arrays\<close> is a store of objects with \<open>full2\<close> at address 10
  and \<open>single3\<close> at address 20.
\<close>

definition three_cells :: "nat \<Rightarrow> nat \<Rightarrow> nat \<Rightarrow> nat heap" where
  "three_cells a b c =
     \<lparr>cells = (\<lambda>_. Unallocated)(1 := Live a, 2 := Live b, 3 := Live c),
      blocks = Map.empty(1 \<mapsto> 2, 3 \<mapsto> 1), brk = 3, limit = 100, sizeof_T = 4\<rparr>"

definition single3 :: Vector where
  "single3 = \<lparr>data_m = \<lparr>buffer_m = 3, capacity_m = 1\<rparr>, size_m = 1\<rparr>"

definition two_arrays :: "nat \<Rightarrow> Vector" where
  "two_arrays = (\<lambda>_. Vector_default)(10 := full2, 20 := single3)"

section \<open>The array an object represents\<close>

text \<open>
  \<open>represents this h xs\<close>: in the store \<open>h\<close> the object \<open>this\<close> is a well-formed
  array whose elements are \<open>xs\<close>, in this order. Its length is that of \<open>xs\<close> and does not
  exceed its capacity; it owns a block of exactly its capacity (none, with a null address,
  when the capacity is 0), whose size in bytes is a value of \<^verbatim>\<open>size_t\<close>, as that of
  every block \<^verbatim>\<open>operator new\<close> returns; the first cells of the block hold the live
  elements and the rest is allocated storage without objects.
\<close>

definition represents :: "Vector \<Rightarrow> 'a heap \<Rightarrow> 'a list \<Rightarrow> bool" where
  "represents this h xs \<longleftrightarrow>
     size_m this = length xs \<and> length xs \<le> capacity_m (data_m this) \<and>
     0 < sizeof_T h \<and> capacity_m (data_m this) * sizeof_T h < 2 ^ 64 \<and>
     (if capacity_m (data_m this) = 0 then buffer_m (data_m this) = 0
      else blocks h (buffer_m (data_m this)) = Some (capacity_m (data_m this))) \<and>
     map (cell h) [buffer_m (data_m this) ..< buffer_m (data_m this) + capacity_m (data_m this)]
       = map Live xs @ replicate (capacity_m (data_m this) - length xs) Raw"

text \<open>
  The construction of a new element from an rvalue reference moves from the object
  referred to. When this object is an element of the array itself, the array holds a
  moved-from value in its place afterwards: \<open>after_forward T args this xs\<close> is what
  an array of elements \<open>xs\<close> holds once an element has been constructed from
  \<open>args\<close>. Any other argument leaves the elements as they are.
\<close>

definition after_forward :: "'a element_type \<Rightarrow> 'a forwarded \<Rightarrow> Vector \<Rightarrow> 'a list \<Rightarrow> 'a list" where
  "after_forward T args this xs =
     (case args of
        RvalueRef a \<Rightarrow>
          if Vector_begin this \<le> a \<and> a < Vector_end this
          then xs[a - Vector_begin this := moved_from T (xs ! (a - Vector_begin this))]
          else xs
      | ConstRef a \<Rightarrow> xs
      | CtorArgs r \<Rightarrow> xs)"

section \<open>The invariant and the state a call ends in\<close>

text \<open>
  \<open>invariant\<close> is the bound between the two counters of an array. A call that
  returns or throws ends in a state; \<open>ends_with N X\<close> says that the object satisfies
  \<open>N\<close> in the state of a normal return and \<open>X\<close> in the state an exception leaves,
  and \<open>holds_after P\<close> that it satisfies \<open>P\<close> in both. A call that aborts on an
  assertion or runs into undefined behaviour has no state to speak of. A constructor that
  throws leaves no object: \<open>constructed P\<close> speaks of the object a constructor returns.
\<close>

definition invariant :: "Vector \<Rightarrow> bool" where
  "invariant this \<longleftrightarrow> Size this \<le> Capacity this"

fun constructed :: "('v \<Rightarrow> bool) \<Rightarrow> ('v, 'h) outcome \<Rightarrow> bool" where
  "constructed P (Normal v h) = P v"
| "constructed P (Throw e h) = True"
| "constructed P (Fault x) = True"

fun ends_with :: "('v \<Rightarrow> bool) \<Rightarrow> ('v \<Rightarrow> bool) \<Rightarrow> ('r, 'v \<times> 'h) outcome \<Rightarrow> bool" where
  "ends_with N X (Normal r s) = N (fst s)"
| "ends_with N X (Throw e s) = X (fst s)"
| "ends_with N X (Fault x) = True"

definition holds_after :: "('v \<Rightarrow> bool) \<Rightarrow> ('r, 'v \<times> 'h) outcome \<Rightarrow> bool" where
  "holds_after P m = ends_with P P m"

section \<open>Evaluation rules\<close>

lemma and_then_simps [simp]:
  "and_then (Normal r s) f = f r s"
  "and_then (Throw e s) f = Throw e s"
  "and_then (Fault x) f = Fault x"
  by (simp_all add: and_then_def)

lemma try_catch_simps [simp]:
  "try_catch (Normal r s) g = Normal r s"
  "try_catch (Throw e s) g = g e s"
  "try_catch (Fault x) g = Fault x"
  by (simp_all add: try_catch_def)

lemma on_object_simps [simp]:
  "on_object this (Normal r h) = Normal r (this, h)"
  "on_object this (Throw e h) = Throw e (this, h)"
  "on_object this (Fault x) = Fault x"
  by (simp_all add: on_object_def)

lemma with_address_simps [simp]:
  "with_address (Inr a) f = f a"
  "with_address (Inl x) f = Fault x"
  by (simp_all add: with_address_def)

lemma RawMemory_overwrite [simp]:
  "(a :: RawMemory)\<lparr>buffer_m := buffer_m b, capacity_m := capacity_m b\<rparr> = b"
  by (cases a, cases b) simp

lemma Vector_overwrite [simp]:
  "(a :: Vector)\<lparr>data_m := data_m b, size_m := size_m b\<rparr> = b"
  by (cases a, cases b) simp

lemma RawMemory_Swap_pair [simp]: "RawMemory_Swap (a, b) = (b, a)"
  by (simp add: RawMemory_Swap_def)

lemma Vector_Swap_pair [simp]: "Vector_Swap (a, b) = (b, a)"
  by (simp add: Vector_Swap_def)

lemmas object_defs = construct_at_def destroy_at_def construct_from_def construct_args_def value_construct_def
  copy_construct_def move_construct_def copy_assign_def move_assign_def move_assign_value_def
  move_throws_def

lemmas store_defs = cell_def operator_new_def operator_delete_def Allocate_def Deallocate_def

lemmas RawMemory_defs = RawMemory_default_def RawMemory_ctor_def RawMemory_move_ctor_def
  RawMemory_Swap_def RawMemory_dtor_def RawMemory_plus_def RawMemory_at_def GetAddress_def
  RawMemory_Capacity_def

lemmas Vector_defs = Vector_begin_def Vector_end_def Size_def Capacity_def Vector_at_def
  Vector_default_def Vector_Swap_def Vector_move_ctor_def

text \<open>The loops, unfolded one round at a time on a count given as a numeral.\<close>

lemma destroy_n_step:
  "0 < n \<Longrightarrow>
   destroy_n first n h = and_then (destroy_at first h) (\<lambda>_. destroy_n (first + 1) (n - 1))"
  by (cases n) simp_all

lemma uninitialized_value_construct_n_step:
  "0 < n \<Longrightarrow>
   uninitialized_value_construct_n T first n h =
     and_then (value_construct T first h)
       (\<lambda>_ h1. try_catch (uninitialized_value_construct_n T (first + 1) (n - 1) h1)
                 (\<lambda>e h2. and_then (destroy_at first h2) (\<lambda>_. Throw e)))"
  by (cases n) simp_all

lemma uninitialized_copy_n_step:
  "0 < n \<Longrightarrow>
   uninitialized_copy_n T first n d_first h =
     and_then (copy_construct T d_first first h)
       (\<lambda>_ h1. try_catch (uninitialized_copy_n T (first + 1) (n - 1) (d_first + 1) h1)
                 (\<lambda>e h2. and_then (destroy_at d_first h2) (\<lambda>_. Throw e)))"
  by (cases n) simp_all

lemma uninitialized_move_n_step:
  "0 < n \<Longrightarrow>
   uninitialized_move_n T first n d_first h =
     and_then (move_construct T d_first first h)
       (\<lambda>_ h1. try_catch (uninitialized_move_n T (first + 1) (n - 1) (d_first + 1) h1)
                 (\<lambda>e h2. and_then (destroy_at d_first h2) (\<lambda>_. Throw e)))"
  by (cases n) simp_all

lemma copy_loop_step:
  "0 < n \<Longrightarrow>
   copy_loop T first n d_first h =
     and_then (copy_assign T d_first first h) (\<lambda>_. copy_loop T (first + 1) (n - 1) (d_first + 1))"
  by (cases n) simp_all

lemma move_loop_step:
  "0 < n \<Longrightarrow>
   move_loop T first n d_first h =
     and_then (move_assign T d_first first h) (\<lambda>_. move_loop T (first + 1) (n - 1) (d_first + 1))"
  by (cases n) simp_all

lemma move_backward_loop_step:
  "0 < n \<Longrightarrow>
   move_backward_loop T last' n d_last h =
     and_then (move_assign T (d_last - 1) (last' - 1) h)
       (\<lambda>_. move_backward_loop T (last' - 1) (n - 1) (d_last - 1))"
  by (cases n) simp_all

lemmas loop_steps = destroy_n_step uninitialized_value_construct_n_step uninitialized_copy_n_step
  uninitialized_move_n_step copy_loop_step move_loop_step move_backward_loop_step
  std_copy_def std_move_def std_move_backward_def

section \<open>Effect of the algorithms on the store\<close>

lemma cell_cells_update [simp]:
  "cell (h\<lparr>cells := f\<rparr>) a = (if 0 < a \<and> a \<le> brk h then f a else Unallocated)"
  by (simp add: cell_def)

lemma cell_in_store: "cell h a \<noteq> Unallocated \<Longrightarrow> 0 < a \<and> a \<le> brk h \<and> cells h a = cell h a"
  by (simp add: cell_def split: if_splits)

lemma cell_LiveD: "cell h a = Live v \<Longrightarrow> 0 < a \<and> a \<le> brk h \<and> cells h a = Live v"
  using cell_in_store [of h a] by simp

lemma cell_RawD: "cell h a = Raw \<Longrightarrow> 0 < a \<and> a \<le> brk h \<and> cells h a = Raw"
  using cell_in_store [of h a] by simp

lemma cells_update_id: "f = cells h \<Longrightarrow> h\<lparr>cells := f\<rparr> = h"
  by simp

lemma construct_at_Raw:
  "cell h p = Raw \<Longrightarrow> construct_at p v h = Normal () (h\<lparr>cells := (cells h)(p := Live v)\<rparr>)"
  by (simp add: construct_at_def)

lemma destroy_at_Live:
  "cell h p = Live v \<Longrightarrow> destroy_at p h = Normal () (h\<lparr>cells := (cells h)(p := Raw)\<rparr>)"
  by (simp add: destroy_at_def)

lemma copy_construct_result:
  "cell h src = Live v \<Longrightarrow> cell h dst = Raw \<Longrightarrow>
   copy_construct T dst src h =
     (if copy_ctor_throws T v then Throw element_exception h
      else Normal () (h\<lparr>cells := (cells h)(dst := Live v)\<rparr>))"
  by (simp add: copy_construct_def construct_at_Raw)

lemma move_construct_result:
  "cell h src = Live v \<Longrightarrow> cell h dst = Raw \<Longrightarrow>
   move_construct T dst src h =
     (if move_throws T v then Throw element_exception h
      else Normal () (h\<lparr>cells := (cells h)(dst := Live v, src := Live (moved_from T v))\<rparr>))"
  by (simp add: move_construct_def construct_at_Raw)

lemma destroy_n_Normal:
  "(\<And>a. first \<le> a \<Longrightarrow> a < first + n \<Longrightarrow> \<exists>v. cell h a = Live v) \<Longrightarrow>
   destroy_n first n h =
     Normal () (h\<lparr>cells := (\<lambda>a. if first \<le> a \<and> a < first + n then Raw else cells h a)\<rparr>)"
proof (induction n arbitrary: first h)
  case 0
  have "(\<lambda>a. if first \<le> a \<and> a < first + 0 then Raw else cells h a) = cells h"
    by (auto simp: fun_eq_iff)
  then show ?case by simp
next
  case (Suc n)
  obtain v where v: "cell h first = Live v"
    using Suc.prems [of first] by auto
  let ?h1 = "h\<lparr>cells := (cells h)(first := Raw)\<rparr>"
  have "destroy_n (first + 1) n ?h1 =
      Normal () (?h1\<lparr>cells := (\<lambda>a. if first + 1 \<le> a \<and> a < first + 1 + n then Raw else cells ?h1 a)\<rparr>)"
  proof (rule Suc.IH)
    fix a assume "first + 1 \<le> a" "a < first + 1 + n"
    then obtain w where "cell h a = Live w" "a \<noteq> first"
      using Suc.prems [of a] by auto
    then show "\<exists>v. cell ?h1 a = Live v"
      using cell_LiveD [of h a w] by simp
  qed
  moreover have "(\<lambda>a. if first + 1 \<le> a \<and> a < first + 1 + n then Raw else cells ?h1 a) =
      (\<lambda>a. if first \<le> a \<and> a < first + Suc n then Raw else cells h a)"
    by (auto simp: fun_eq_iff)
  ultimately show ?case
    by (simp add: destroy_at_Live [OF v])
qed

lemma uninitialized_copy_n_aux:
  assumes "\<And>i. i < n \<Longrightarrow> cell h (first + i) = Live (f i)"
    and "\<And>i. i < n \<Longrightarrow> cell h (d + i) = Raw"
    and "first + n \<le> d \<or> d + n \<le> first"
  shows "uninitialized_copy_n T first n d h =
     (if \<exists>i<n. copy_ctor_throws T (f i) then Throw element_exception h
      else Normal () (h\<lparr>cells := (\<lambda>a. if d \<le> a \<and> a < d + n then Live (f (a - d)) else cells h a)\<rparr>))"
  using assms
proof (induction n arbitrary: first d h f)
  case 0
  have "(\<lambda>a. if d \<le> a \<and> a < d + 0 then Live (f (a - d)) else cells h a) = cells h"
    by (auto simp: fun_eq_iff)
  then show ?case by simp
next
  case (Suc n)
  have src: "cell h first = Live (f 0)" using Suc.prems(1) [of 0] by simp
  have dst: "cell h d = Raw" using Suc.prems(2) [of 0] by simp
  show ?case
  proof (cases "copy_ctor_throws T (f 0)")
    case True
    then have "\<exists>i<Suc n. copy_ctor_throws T (f i)" by blast
    with True show ?thesis
      by (simp add: copy_construct_result [OF src dst])
  next
    case False
    let ?h1 = "h\<lparr>cells := (cells h)(d := Live (f 0))\<rparr>"
    have rec: "uninitialized_copy_n T (first + 1) n (d + 1) ?h1 =
        (if \<exists>i<n. copy_ctor_throws T ((f \<circ> Suc) i) then Throw element_exception ?h1
         else Normal () (?h1\<lparr>cells := (\<lambda>a. if d + 1 \<le> a \<and> a < d + 1 + n then Live ((f \<circ> Suc) (a - (d + 1))) else cells ?h1 a)\<rparr>))"
    proof (rule Suc.IH)
      fix i assume i: "i < n"
      have "cell h (first + Suc i) = Live (f (Suc i))" using Suc.prems(1) [of "Suc i"] i by simp
      moreover have "first + Suc i \<noteq> d" using Suc.prems(3) i by auto
      ultimately show "cell ?h1 (first + 1 + i) = Live ((f \<circ> Suc) i)"
        using cell_LiveD [of h "first + Suc i"] by simp
    next
      fix i assume i: "i < n"
      have "cell h (d + Suc i) = Raw" using Suc.prems(2) [of "Suc i"] i by simp
      then show "cell ?h1 (d + 1 + i) = Raw"
        using cell_RawD [of h "d + Suc i"] by simp
    next
      show "first + 1 + n \<le> d + 1 \<or> d + 1 + n \<le> first + 1" using Suc.prems(3) by auto
    qed
    have ex: "(\<exists>i<Suc n. copy_ctor_throws T (f i)) = (\<exists>i<n. copy_ctor_throws T (f (Suc i)))"
      using False by (simp add: Ex_less_Suc2)
    have step: "uninitialized_copy_n T first (Suc n) d h =
        try_catch (uninitialized_copy_n T (first + 1) n (d + 1) ?h1)
          (\<lambda>e h2. and_then (destroy_at d h2) (\<lambda>_. Throw e))"
      using False by (simp add: copy_construct_result [OF src dst])
    show ?thesis
    proof (cases "\<exists>i<n. copy_ctor_throws T (f (Suc i))")
      case True
      then have r: "uninitialized_copy_n T (first + 1) n (d + 1) ?h1 = Throw element_exception ?h1"
        using rec by simp
      have "cell ?h1 d = Live (f 0)" using cell_RawD [OF dst] by simp
      then have "destroy_at d ?h1 = Normal () (?h1\<lparr>cells := (cells ?h1)(d := Raw)\<rparr>)"
        by (rule destroy_at_Live)
      moreover have "?h1\<lparr>cells := (cells ?h1)(d := Raw)\<rparr> = h"
        using cell_RawD [OF dst] by (simp add: fun_upd_idem)
      ultimately have "uninitialized_copy_n T first (Suc n) d h = Throw element_exception h"
        unfolding step r by simp
      moreover have "\<exists>i<Suc n. copy_ctor_throws T (f i)" using True ex by simp
      ultimately show ?thesis by simp
    next
      case no: False
      then have r: "uninitialized_copy_n T (first + 1) n (d + 1) ?h1 =
          Normal () (?h1\<lparr>cells := (\<lambda>a. if d + 1 \<le> a \<and> a < d + 1 + n then Live ((f \<circ> Suc) (a - (d + 1))) else cells ?h1 a)\<rparr>)"
        using rec by simp
      have "(\<lambda>a. if d + 1 \<le> a \<and> a < d + 1 + n then Live ((f \<circ> Suc) (a - (d + 1))) else cells ?h1 a) =
          (\<lambda>a. if d \<le> a \<and> a < d + Suc n then Live (f (a - d)) else cells h a)"
        by (auto simp: fun_eq_iff Suc_diff_Suc elim: less_SucE)
      then have "uninitialized_copy_n T first (Suc n) d h =
          Normal () (h\<lparr>cells := (\<lambda>a. if d \<le> a \<and> a < d + Suc n then Live (f (a - d)) else cells h a)\<rparr>)"
        unfolding step r by simp
      moreover have "\<not> (\<exists>i<Suc n. copy_ctor_throws T (f i))" using no ex by simp
      ultimately show ?thesis by simp
    qed
  qed
qed


lemma uninitialized_move_n_aux:
  assumes "\<And>i. i < n \<Longrightarrow> cell h (first + i) = Live (f i)"
    and "\<And>i. i < n \<Longrightarrow> cell h (d + i) = Raw"
    and "first + n \<le> d \<or> d + n \<le> first"
  shows "(\<not> (\<exists>i<n. move_throws T (f i)) \<and>
          uninitialized_move_n T first n d h =
            Normal () (h\<lparr>cells := (\<lambda>a. if d \<le> a \<and> a < d + n then Live (f (a - d))
                                     else if first \<le> a \<and> a < first + n then Live (moved_from T (f (a - first)))
                                     else cells h a)\<rparr>)) \<or>
         (\<exists>k<n. move_throws T (f k) \<and> (\<forall>i<k. \<not> move_throws T (f i)) \<and>
          uninitialized_move_n T first n d h =
            Throw element_exception
              (h\<lparr>cells := (\<lambda>a. if first \<le> a \<and> a < first + k then Live (moved_from T (f (a - first)))
                              else cells h a)\<rparr>))"
  using assms
proof (induction n arbitrary: first d h f)
  case 0
  have "(\<lambda>a. if d \<le> a \<and> a < d + 0 then Live (f (a - d))
             else if first \<le> a \<and> a < first + 0 then Live (moved_from T (f (a - first)))
             else cells h a) = cells h"
    by (auto simp: fun_eq_iff)
  then show ?case by simp
next
  case (Suc n)
  have src: "cell h first = Live (f 0)" using Suc.prems(1) [of 0] by simp
  have dst: "cell h d = Raw" using Suc.prems(2) [of 0] by simp
  have ne: "first \<noteq> d" using Suc.prems(3) by auto
  show ?case
  proof (cases "move_throws T (f 0)")
    case True
    have "(\<lambda>a. if first \<le> a \<and> a < first + 0 then Live (moved_from T (f (a - first))) else cells h a) = cells h"
      by (auto simp: fun_eq_iff)
    then have "uninitialized_move_n T first (Suc n) d h =
        Throw element_exception
          (h\<lparr>cells := (\<lambda>a. if first \<le> a \<and> a < first + 0 then Live (moved_from T (f (a - first))) else cells h a)\<rparr>)"
      using True by (simp add: move_construct_result [OF src dst])
    with True show ?thesis by blast
  next
    case False
    let ?h1 = "h\<lparr>cells := (cells h)(d := Live (f 0), first := Live (moved_from T (f 0)))\<rparr>"
    let ?g = "f \<circ> Suc"
    have step: "uninitialized_move_n T first (Suc n) d h =
        try_catch (uninitialized_move_n T (first + 1) n (d + 1) ?h1)
          (\<lambda>e h2. and_then (destroy_at d h2) (\<lambda>_. Throw e))"
      using False by (simp add: move_construct_result [OF src dst])
    have rec: "(\<not> (\<exists>i<n. move_throws T (?g i)) \<and>
          uninitialized_move_n T (first + 1) n (d + 1) ?h1 =
            Normal () (?h1\<lparr>cells := (\<lambda>a. if d + 1 \<le> a \<and> a < d + 1 + n then Live (?g (a - (d + 1)))
                                     else if first + 1 \<le> a \<and> a < first + 1 + n then Live (moved_from T (?g (a - (first + 1))))
                                     else cells ?h1 a)\<rparr>)) \<or>
         (\<exists>k<n. move_throws T (?g k) \<and> (\<forall>i<k. \<not> move_throws T (?g i)) \<and>
          uninitialized_move_n T (first + 1) n (d + 1) ?h1 =
            Throw element_exception
              (?h1\<lparr>cells := (\<lambda>a. if first + 1 \<le> a \<and> a < first + 1 + k then Live (moved_from T (?g (a - (first + 1))))
                              else cells ?h1 a)\<rparr>))"
    proof (rule Suc.IH)
      fix i assume i: "i < n"
      have "cell h (first + Suc i) = Live (f (Suc i))" using Suc.prems(1) [of "Suc i"] i by simp
      moreover have "first + Suc i \<noteq> d" using Suc.prems(3) i by auto
      ultimately show "cell ?h1 (first + 1 + i) = Live (?g i)"
        using cell_LiveD [of h "first + Suc i"] by simp
    next
      fix i assume i: "i < n"
      have "cell h (d + Suc i) = Raw" using Suc.prems(2) [of "Suc i"] i by simp
      moreover have "d + Suc i \<noteq> first" using Suc.prems(3) i by auto
      ultimately show "cell ?h1 (d + 1 + i) = Raw"
        using cell_RawD [of h "d + Suc i"] by simp
    next
      show "first + 1 + n \<le> d + 1 \<or> d + 1 + n \<le> first + 1" using Suc.prems(3) by auto
    qed
    from rec show ?thesis
    proof (elim disjE conjE exE)
      assume no: "\<not> (\<exists>i<n. move_throws T (?g i))"
        and r: "uninitialized_move_n T (first + 1) n (d + 1) ?h1 =
            Normal () (?h1\<lparr>cells := (\<lambda>a. if d + 1 \<le> a \<and> a < d + 1 + n then Live (?g (a - (d + 1)))
                                     else if first + 1 \<le> a \<and> a < first + 1 + n then Live (moved_from T (?g (a - (first + 1))))
                                     else cells ?h1 a)\<rparr>)"
      have "(\<lambda>a. if d + 1 \<le> a \<and> a < d + 1 + n then Live (?g (a - (d + 1)))
                 else if first + 1 \<le> a \<and> a < first + 1 + n then Live (moved_from T (?g (a - (first + 1))))
                 else cells ?h1 a) =
            (\<lambda>a. if d \<le> a \<and> a < d + Suc n then Live (f (a - d))
                 else if first \<le> a \<and> a < first + Suc n then Live (moved_from T (f (a - first)))
                 else cells h a)"
        using Suc.prems(3) by (auto simp: fun_eq_iff Suc_diff_Suc elim: less_SucE)
      then have "uninitialized_move_n T first (Suc n) d h =
          Normal () (h\<lparr>cells := (\<lambda>a. if d \<le> a \<and> a < d + Suc n then Live (f (a - d))
                 else if first \<le> a \<and> a < first + Suc n then Live (moved_from T (f (a - first)))
                 else cells h a)\<rparr>)"
        unfolding step r by simp
      moreover have "\<not> (\<exists>i<Suc n. move_throws T (f i))"
        using no False by (simp add: Ex_less_Suc2)
      ultimately show ?thesis by blast
    next
      fix k assume k: "k < n" and thr: "move_throws T (?g k)"
        and before: "\<forall>i<k. \<not> move_throws T (?g i)"
        and r: "uninitialized_move_n T (first + 1) n (d + 1) ?h1 =
            Throw element_exception
              (?h1\<lparr>cells := (\<lambda>a. if first + 1 \<le> a \<and> a < first + 1 + k then Live (moved_from T (?g (a - (first + 1))))
                              else cells ?h1 a)\<rparr>)"
      let ?h2 = "?h1\<lparr>cells := (\<lambda>a. if first + 1 \<le> a \<and> a < first + 1 + k then Live (moved_from T (?g (a - (first + 1))))
                              else cells ?h1 a)\<rparr>"
      have "d < first + 1 \<or> first + 1 + k \<le> d" using Suc.prems(3) k by auto
      then have "cell ?h2 d = Live (f 0)" using cell_RawD [OF dst] ne by auto
      then have "destroy_at d ?h2 = Normal () (?h2\<lparr>cells := (cells ?h2)(d := Raw)\<rparr>)"
        by (rule destroy_at_Live)
      moreover have "(cells ?h2)(d := Raw) =
          (\<lambda>a. if first \<le> a \<and> a < first + Suc k then Live (moved_from T (f (a - first))) else cells h a)"
        using Suc.prems(3) k cell_RawD [OF dst] by (auto simp: fun_eq_iff Suc_diff_Suc elim: less_SucE)
      ultimately have "uninitialized_move_n T first (Suc n) d h =
          Throw element_exception
            (h\<lparr>cells := (\<lambda>a. if first \<le> a \<and> a < first + Suc k then Live (moved_from T (f (a - first))) else cells h a)\<rparr>)"
        unfolding step r by simp
      moreover have "Suc k < Suc n" using k by simp
      moreover have "move_throws T (f (Suc k))" using thr by simp
      moreover have "\<forall>i<Suc k. \<not> move_throws T (f i)"
        using before False by (simp add: All_less_Suc2)
      ultimately show ?thesis by blast
    qed
  qed
qed

lemma uninitialized_copy_n_result:
  assumes "\<forall>i<n. cell h (first + i) = Live (f i)"
    and "\<forall>i<n. cell h (d + i) = Raw"
    and "first + n \<le> d \<or> d + n \<le> first"
  shows "uninitialized_copy_n T first n d h =
     (if \<exists>i<n. copy_ctor_throws T (f i) then Throw element_exception h
      else Normal () (h\<lparr>cells := (\<lambda>a. if d \<le> a \<and> a < d + n then Live (f (a - d)) else cells h a)\<rparr>))"
  by (rule uninitialized_copy_n_aux) (use assms in auto)

lemma uninitialized_move_n_result:
  assumes "\<forall>i<n. cell h (first + i) = Live (f i)"
    and "\<forall>i<n. cell h (d + i) = Raw"
    and "first + n \<le> d \<or> d + n \<le> first"
  shows "(\<not> (\<exists>i<n. move_throws T (f i)) \<and>
          uninitialized_move_n T first n d h =
            Normal () (h\<lparr>cells := (\<lambda>a. if d \<le> a \<and> a < d + n then Live (f (a - d))
                                     else if first \<le> a \<and> a < first + n then Live (moved_from T (f (a - first)))
                                     else cells h a)\<rparr>)) \<or>
         (\<exists>k<n. move_throws T (f k) \<and> (\<forall>i<k. \<not> move_throws T (f i)) \<and>
          uninitialized_move_n T first n d h =
            Throw element_exception
              (h\<lparr>cells := (\<lambda>a. if first \<le> a \<and> a < first + k then Live (moved_from T (f (a - first)))
                              else cells h a)\<rparr>))"
  by (rule uninitialized_move_n_aux) (use assms in auto)

section \<open>Arrays in the store, growth and its rollback\<close>

lemma block_cells_iff:
  "m \<le> c \<Longrightarrow>
   (map (cell h) [b ..< b + c] = map Live xs @ replicate (c - m) Raw \<and> length xs = m) \<longleftrightarrow>
   (length xs = m \<and> (\<forall>i<c. cell h (b + i) = (if i < m then Live (xs ! i) else Raw)))"
  by (auto simp add: list_eq_iff_nth_eq nth_append)

lemma represents_iff:
  "represents this h xs \<longleftrightarrow>
     size_m this = length xs \<and> length xs \<le> capacity_m (data_m this) \<and>
     0 < sizeof_T h \<and> capacity_m (data_m this) * sizeof_T h < 2 ^ 64 \<and>
     (if capacity_m (data_m this) = 0 then buffer_m (data_m this) = 0
      else blocks h (buffer_m (data_m this)) = Some (capacity_m (data_m this))) \<and>
     (\<forall>i<capacity_m (data_m this).
        cell h (buffer_m (data_m this) + i) = (if i < length xs then Live (xs ! i) else Raw))"
proof (cases "length xs \<le> capacity_m (data_m this)")
  case True
  from block_cells_iff [OF True, of h "buffer_m (data_m this)" xs]
  show ?thesis unfolding represents_def by blast
next
  case False
  then show ?thesis unfolding represents_def by blast
qed

lemma RawMemory_ctor_pos:
  "0 < n \<Longrightarrow> 0 < sizeof_T h \<Longrightarrow> n * sizeof_T h < 2 ^ 64 \<Longrightarrow>
   RawMemory_ctor n h =
     (if limit h < brk h + n then Throw bad_alloc h
      else Normal \<lparr>buffer_m = brk h + 1, capacity_m = n\<rparr>
             (h\<lparr>cells := (\<lambda>a. if brk h + 1 \<le> a \<and> a < brk h + 1 + n then Raw else cells h a),
                blocks := (blocks h)(brk h + 1 \<mapsto> n),
                brk := brk h + n\<rparr>))"
  by (simp add: RawMemory_ctor_def Allocate_def operator_new_def Let_def)

lemma RawMemory_dtor_result:
  "RawMemory_dtor rm h =
     (if buffer_m rm = 0 then Normal () h
      else case blocks h (buffer_m rm) of
             None \<Rightarrow> Fault undefined_behaviour
           | Some n \<Rightarrow>
               Normal ()
                 (h\<lparr>cells := (\<lambda>a. if buffer_m rm \<le> a \<and> a < buffer_m rm + n then release (cells h a) else cells h a),
                    blocks := (blocks h)(buffer_m rm := None)\<rparr>))"
  by (simp add: RawMemory_dtor_def Deallocate_def operator_delete_def)


lemma Reserve_noop:
  "new_capacity \<le> Capacity this \<Longrightarrow> Reserve T new_capacity this h = Normal () (this, h)"
  by (simp add: Reserve_def Capacity_def)

lemma represents_below_break:
  assumes "represents this h xs"
  shows "buffer_m (data_m this) + capacity_m (data_m this) \<le> brk h + 1"
proof (cases "capacity_m (data_m this)")
  case 0
  with assms show ?thesis by (simp add: represents_iff)
next
  case (Suc c)
  with assms have "cell h (buffer_m (data_m this) + c) \<noteq> Unallocated"
    by (auto simp: represents_iff)
  from cell_in_store [OF this] Suc show ?thesis by simp
qed

lemma represents_after_alloc:
  assumes "represents this h xs"
  shows "represents this
           (h\<lparr>cells := (\<lambda>a. if brk h + 1 \<le> a \<and> a < brk h + 1 + n then Raw else cells h a),
              blocks := (blocks h)(brk h + 1 \<mapsto> n),
              brk := brk h + n\<rparr>) xs"
proof -
  have le: "buffer_m (data_m this) + capacity_m (data_m this) \<le> brk h + 1"
    by (rule represents_below_break [OF assms])
  have pos: "capacity_m (data_m this) \<noteq> 0 \<Longrightarrow> 0 < buffer_m (data_m this)"
    using assms cell_in_store [of h "buffer_m (data_m this) + 0"]
    by (auto simp: represents_iff)
  show ?thesis
    using assms le pos
    by (auto simp: represents_iff cell_def)
qed



text \<open>The last phase of a growth: the old elements are destroyed and the old block released.\<close>

lemma retire_old_block:
  assumes size: "size_m this = m" and mc: "m \<le> capacity_m (data_m this)"
    and old: "\<And>i. i < m \<Longrightarrow> \<exists>v. cell h (buffer_m (data_m this) + i) = Live v"
    and block: "if capacity_m (data_m this) = 0 then buffer_m (data_m this) = 0
                else blocks h (buffer_m (data_m this)) = Some (capacity_m (data_m this))"
    and new: "represents (this\<lparr>data_m := nd\<rparr>) h xs"
    and disj: "buffer_m (data_m this) + capacity_m (data_m this) \<le> buffer_m nd"
  shows "\<exists>h1 h2. destroy_n (buffer_m (data_m this)) m h = Normal () h1 \<and>
           RawMemory_dtor (data_m this) h1 = Normal () h2 \<and>
           represents (this\<lparr>data_m := nd\<rparr>) h2 xs"
proof -
  define b where "b = buffer_m (data_m this)"
  define c where "c = capacity_m (data_m this)"
  define d where "d = buffer_m nd"
  define h1 where "h1 = h\<lparr>cells := (\<lambda>a. if b \<le> a \<and> a < b + m then Raw else cells h a)\<rparr>"
  define h2 where "h2 = (if b = 0 then h1
      else h1\<lparr>cells := (\<lambda>a. if b \<le> a \<and> a < b + c then release (cells h1 a) else cells h1 a),
               blocks := (blocks h1)(b := None)\<rparr>)"
  have live: "\<And>a. b \<le> a \<Longrightarrow> a < b + m \<Longrightarrow> \<exists>v. cell h a = Live v"
  proof -
    fix a assume "b \<le> a" "a < b + m"
    then have "\<exists>v. cell h (b + (a - b)) = Live v" unfolding b_def by (intro old) simp
    with \<open>b \<le> a\<close> show "\<exists>v. cell h a = Live v" by simp
  qed
  have destroy: "destroy_n b m h = Normal () h1"
    unfolding h1_def by (rule destroy_n_Normal) (rule live)
  have dtor: "RawMemory_dtor (data_m this) h1 = Normal () h2"
  proof (cases "b = 0")
    case True
    then show ?thesis by (simp add: RawMemory_dtor_result h2_def b_def)
  next
    case False
    with block mc have "blocks h1 b = Some c"
      by (auto simp: h1_def b_def c_def split: if_splits)
    then show ?thesis
      using False by (simp add: RawMemory_dtor_result h2_def flip: b_def)
  qed
  have newcells: "\<And>i. i < capacity_m nd \<Longrightarrow> cell h (d + i) = (if i < length xs then Live (xs ! i) else Raw)"
    using new by (simp add: represents_iff d_def)
  have keep: "\<And>i. i < capacity_m nd \<Longrightarrow> cell h2 (d + i) = cell h (d + i)"
    using disj mc by (auto simp add: h2_def h1_def cell_def simp flip: b_def c_def d_def)
  have dpos: "capacity_m nd \<noteq> 0 \<Longrightarrow> b \<noteq> d"
  proof
    assume "capacity_m nd \<noteq> 0" "b = d"
    with disj have "c = 0" by (simp add: b_def c_def d_def)
    with block have "b = 0" by (simp add: b_def c_def)
    moreover from newcells [of 0] \<open>capacity_m nd \<noteq> 0\<close> have "cell h d \<noteq> Unallocated"
      by (auto split: if_splits)
    then have "0 < d" by (auto dest: cell_in_store)
    ultimately show False using \<open>b = d\<close> by simp
  qed
  have blocks2: "capacity_m nd \<noteq> 0 \<Longrightarrow> blocks h2 d = blocks h d"
    using dpos by (auto simp: h2_def h1_def)
  have size2: "sizeof_T h2 = sizeof_T h" by (simp add: h2_def h1_def)
  have "represents (this\<lparr>data_m := nd\<rparr>) h2 xs"
    using new keep blocks2 by (auto simp add: represents_iff size2 simp flip: d_def)
  with destroy dtor show ?thesis unfolding b_def by blast
qed

text \<open>Giving up a growth: the new block is released while it holds no object.\<close>

lemma release_new_block:
  assumes rep: "represents this h xs"
    and block: "blocks h d = Some n"
    and disj: "buffer_m (data_m this) + capacity_m (data_m this) \<le> d"
    and dpos: "0 < d"
  shows "\<exists>h'. RawMemory_dtor \<lparr>buffer_m = d, capacity_m = n\<rparr> h = Normal () h' \<and> represents this h' xs \<and>
           (\<forall>a. d \<le> a \<and> a < d + n \<and> cell h a = Raw \<longrightarrow> cell h' a = Unallocated) \<and>
           (\<forall>a. \<not> (d \<le> a \<and> a < d + n) \<longrightarrow> cell h' a = cell h a)"
proof -
  define h' where "h' = h\<lparr>cells := (\<lambda>a. if d \<le> a \<and> a < d + n then release (cells h a) else cells h a),
               blocks := (blocks h)(d := None)\<rparr>"
  have dtor: "RawMemory_dtor \<lparr>buffer_m = d, capacity_m = n\<rparr> h = Normal () h'"
    using block dpos by (simp add: RawMemory_dtor_result h'_def)
  have ne: "capacity_m (data_m this) \<noteq> 0 \<Longrightarrow> buffer_m (data_m this) \<noteq> d"
    using disj by auto
  have outside: "\<forall>a. \<not> (d \<le> a \<and> a < d + n) \<longrightarrow> cell h' a = cell h a"
    by (auto simp: h'_def cell_def)
  have "\<And>i. i < capacity_m (data_m this) \<Longrightarrow>
      cell h' (buffer_m (data_m this) + i) = cell h (buffer_m (data_m this) + i)"
    using disj outside by simp
  moreover have "capacity_m (data_m this) \<noteq> 0 \<Longrightarrow>
      blocks h' (buffer_m (data_m this)) = blocks h (buffer_m (data_m this))"
    using ne by (simp add: h'_def)
  moreover have "sizeof_T h' = sizeof_T h" by (simp add: h'_def)
  ultimately have "represents this h' xs"
    using rep by (auto simp add: represents_iff)
  moreover have "\<forall>a. d \<le> a \<and> a < d + n \<and> cell h a = Raw \<longrightarrow> cell h' a = Unallocated"
    by (auto simp: h'_def cell_def split: if_splits)
  moreover note outside
  ultimately show ?thesis using dtor by blast
qed


lemma alloc_facts:
  fixes h :: "'a heap" and n :: nat
  assumes rep: "represents this h xs"
  defines "h1 \<equiv> h\<lparr>cells := (\<lambda>a. if brk h + 1 \<le> a \<and> a < brk h + 1 + n then Raw else cells h a),
              blocks := (blocks h)(brk h + 1 \<mapsto> n), brk := brk h + n\<rparr>"
  shows "represents this h1 xs \<and> (\<forall>i<n. cell h1 (brk h + 1 + i) = Raw) \<and>
         blocks h1 (brk h + 1) = Some n \<and>
         buffer_m (data_m this) + capacity_m (data_m this) \<le> brk h + 1"
proof (intro conjI)
  show "represents this h1 xs"
    unfolding h1_def by (rule represents_after_alloc [OF rep])
  show "\<forall>i<n. cell h1 (brk h + 1 + i) = Raw"
    by (simp add: h1_def cell_def)
  show "blocks h1 (brk h + 1) = Some n"
    by (simp add: h1_def)
  show "buffer_m (data_m this) + capacity_m (data_m this) \<le> brk h + 1"
    by (rule represents_below_break [OF rep])
qed

lemma Reserve_unfold:
  assumes "Capacity this < n" and "RawMemory_ctor n h = Normal nd h1"
    and "r = (if is_nothrow_move_constructible T then
               uninitialized_move_n T (buffer_m (data_m this)) (size_m this) (buffer_m nd) h1
             else if is_copy_constructible T then
               uninitialized_copy_n T (buffer_m (data_m this)) (size_m this) (buffer_m nd) h1
             else if is_move_constructible T then
               uninitialized_move_n T (buffer_m (data_m this)) (size_m this) (buffer_m nd) h1
             else Fault static_assertion_failed)"
  shows "Reserve T n this h =
     (case and_then r (\<lambda>_. destroy_n (buffer_m (data_m this)) (size_m this)) of
        Normal _ h2 \<Rightarrow> on_object (this\<lparr>data_m := nd\<rparr>) (RawMemory_dtor (data_m this) h2)
      | Throw e h2 \<Rightarrow> on_object this (and_then (RawMemory_dtor nd h2) (\<lambda>_. Throw e))
      | Fault x \<Rightarrow> Fault x)"
  using assms(1,2) unfolding assms(3)
  by (simp add: Reserve_def Capacity_def GetAddress_def cong: outcome.case_cong)

lemma Reserve_grow:
  assumes rep: "represents this h xs" and cap: "Capacity this < n"
    and fits: "n * sizeof_T h < 2 ^ 64"
    and lim: "\<not> limit h < brk h + n"
  shows
    "if is_nothrow_move_constructible T \<or> (\<not> is_copy_constructible T \<and> is_move_constructible T) then
       (if \<exists>x\<in>set xs. move_throws T x
        then \<exists>h'. Reserve T n this h = Throw element_exception (this, h')
        else \<exists>h'. Reserve T n this h =
                 Normal () (this\<lparr>data_m := \<lparr>buffer_m = brk h + 1, capacity_m = n\<rparr>\<rparr>, h') \<and>
               represents (this\<lparr>data_m := \<lparr>buffer_m = brk h + 1, capacity_m = n\<rparr>\<rparr>) h' xs)
     else if is_copy_constructible T then
       (if \<exists>x\<in>set xs. copy_ctor_throws T x
        then \<exists>h'. Reserve T n this h = Throw element_exception (this, h') \<and> represents this h' xs
        else \<exists>h'. Reserve T n this h =
                 Normal () (this\<lparr>data_m := \<lparr>buffer_m = brk h + 1, capacity_m = n\<rparr>\<rparr>, h') \<and>
               represents (this\<lparr>data_m := \<lparr>buffer_m = brk h + 1, capacity_m = n\<rparr>\<rparr>) h' xs)
     else Reserve T n this h = Fault static_assertion_failed"
proof -
  define b where "b = buffer_m (data_m this)"
  define c where "c = capacity_m (data_m this)"
  define m where "m = length xs"
  define d where "d = brk h + 1"
  define nd where "nd = \<lparr>buffer_m = d, capacity_m = n\<rparr>"
  define h1 where "h1 = h\<lparr>cells := (\<lambda>a. if brk h + 1 \<le> a \<and> a < brk h + 1 + n then Raw else cells h a),
              blocks := (blocks h)(brk h + 1 \<mapsto> n), brk := brk h + n\<rparr>"
  from alloc_facts [OF rep, of n]
  have af: "represents this h1 xs" "\<And>i. i < n \<Longrightarrow> cell h1 (d + i) = Raw"
    "blocks h1 d = Some n" "b + c \<le> d"
    by (simp_all add: h1_def d_def b_def c_def)
  have size: "size_m this = m" and mc: "m \<le> c" and cn: "c < n"
    using rep cap by (simp_all add: represents_iff m_def c_def Capacity_def RawMemory_Capacity_def)
  have block1: "if c = 0 then b = 0 else blocks h1 b = Some c"
    using af(1) by (simp add: represents_iff b_def c_def)
  have spos: "0 < sizeof_T h" using rep by (simp add: represents_iff)
  have size1: "sizeof_T h1 = sizeof_T h" by (simp add: h1_def)
  have alloc: "RawMemory_ctor n h = Normal nd h1"
    using cn lim spos fits by (simp add: RawMemory_ctor_pos h1_def d_def nd_def)
  have src: "\<forall>i<m. cell h1 (b + i) = Live (xs ! i)"
    using af(1) mc by (simp add: represents_iff b_def c_def m_def)
  have dst: "\<forall>i<m. cell h1 (d + i) = Raw"
    using mc cn af(2) by simp
  have disj: "b + m \<le> d \<or> d + m \<le> b"
    using af(4) mc by simp
  have set_conv: "\<And>P. (\<exists>x\<in>set xs. P x) = (\<exists>i<m. P (xs ! i))"
    unfolding m_def by (metis in_set_conv_nth)
  let ?this' = "this\<lparr>data_m := nd\<rparr>"
  define r where "r = (if is_nothrow_move_constructible T then
               uninitialized_move_n T b m d h1
             else if is_copy_constructible T then
               uninitialized_copy_n T b m d h1
             else if is_move_constructible T then
               uninitialized_move_n T b m d h1
             else Fault static_assertion_failed)"
  have unf: "Reserve T n this h =
     (case and_then r (\<lambda>_. destroy_n b m) of
        Normal _ h2 \<Rightarrow> on_object ?this' (RawMemory_dtor (data_m this) h2)
      | Throw e h2 \<Rightarrow> on_object this (and_then (RawMemory_dtor nd h2) (\<lambda>_. Throw e))
      | Fault x \<Rightarrow> Fault x)"
    using Reserve_unfold [OF cap alloc, of r T] size
    unfolding r_def b_def nd_def by simp
  have commit: "\<exists>h'. Reserve T n this h = Normal () (?this', h') \<and> represents ?this' h' xs"
    if tr: "r = Normal () h2"
      and old2: "\<And>i. i < m \<Longrightarrow> \<exists>v. cell h2 (b + i) = Live v"
      and new2: "\<And>i. i < n \<Longrightarrow> cell h2 (d + i) = (if i < m then Live (xs ! i) else Raw)"
      and blocks2: "blocks h2 = blocks h1"
      and size2: "sizeof_T h2 = sizeof_T h1"
    for h2
  proof -
    have "represents ?this' h2 xs"
      using new2 size mc cn af(3) blocks2 spos fits
      by (simp add: represents_iff nd_def m_def size2 size1)
    have p5: "represents ?this' h2 xs" by fact
    have p2: "m \<le> capacity_m (data_m this)" using mc unfolding c_def by simp
    have p3: "\<And>i. i < m \<Longrightarrow> \<exists>v. cell h2 (buffer_m (data_m this) + i) = Live v"
      using old2 unfolding b_def by simp
    have p4: "if capacity_m (data_m this) = 0 then buffer_m (data_m this) = 0
              else blocks h2 (buffer_m (data_m this)) = Some (capacity_m (data_m this))"
      using block1 blocks2 unfolding b_def c_def by simp
    have p6: "buffer_m (data_m this) + capacity_m (data_m this) \<le> buffer_m nd"
      using af(4) unfolding nd_def b_def c_def by simp
    from retire_old_block [OF size p2 p3 p4 p5 p6]
    obtain h3 h4 where "destroy_n b m h2 = Normal () h3"
      and "RawMemory_dtor (data_m this) h3 = Normal () h4"
      and "represents ?this' h4 xs"
      unfolding b_def by blast
    then show ?thesis
      using unf tr by simp
  qed
  have abort: "\<exists>h'. Reserve T n this h = Throw element_exception (this, h')"
    if tr: "r = Throw element_exception h2"
      and blocks2: "blocks h2 = blocks h1"
    for h2
  proof -
    have "blocks h2 d = Some n" using af(3) blocks2 by simp
    then have "\<exists>h'. RawMemory_dtor nd h2 = Normal () h'"
      by (simp add: RawMemory_dtor_result nd_def d_def)
    then show ?thesis
      using unf tr by auto
  qed
  show ?thesis
  proof (cases "is_nothrow_move_constructible T \<or> (\<not> is_copy_constructible T \<and> is_move_constructible T)")
    case move: True
    then have sel: "r = uninitialized_move_n T b m d h1"
      unfolding r_def by auto
    from uninitialized_move_n_result [of m h1 b "(!) xs" d T, OF src dst disj]
    show ?thesis
    proof (elim disjE conjE exE)
      assume no: "\<not> (\<exists>i<m. move_throws T (xs ! i))"
        and r: "uninitialized_move_n T b m d h1 =
            Normal () (h1\<lparr>cells := (\<lambda>a. if d \<le> a \<and> a < d + m then Live (xs ! (a - d))
                                     else if b \<le> a \<and> a < b + m then Live (moved_from T (xs ! (a - b)))
                                     else cells h1 a)\<rparr>)"
      let ?h2 = "h1\<lparr>cells := (\<lambda>a. if d \<le> a \<and> a < d + m then Live (xs ! (a - d))
                                     else if b \<le> a \<and> a < b + m then Live (moved_from T (xs ! (a - b)))
                                     else cells h1 a)\<rparr>"
      have old2: "\<And>i. i < m \<Longrightarrow> \<exists>v. cell ?h2 (b + i) = Live v"
        using src af(4) mc by (auto dest!: cell_LiveD)
      have new2: "\<And>i. i < n \<Longrightarrow> cell ?h2 (d + i) = (if i < m then Live (xs ! i) else Raw)"
        using af(2) af(4) mc by (auto simp: h1_def d_def cell_def)
      from commit [of ?h2, OF _ old2 new2] sel r
      have "\<exists>h'. Reserve T n this h = Normal () (?this', h') \<and> represents ?this' h' xs"
        by simp
      with no move show ?thesis by (auto simp add: set_conv nd_def d_def)
    next
      fix k assume k: "k < m" and thr: "move_throws T (xs ! k)"
        and r: "uninitialized_move_n T b m d h1 =
            Throw element_exception
              (h1\<lparr>cells := (\<lambda>a. if b \<le> a \<and> a < b + k then Live (moved_from T (xs ! (a - b)))
                              else cells h1 a)\<rparr>)"
      have "r = Throw element_exception
              (h1\<lparr>cells := (\<lambda>a. if b \<le> a \<and> a < b + k then Live (moved_from T (xs ! (a - b)))
                              else cells h1 a)\<rparr>)"
        using sel r by simp
      then have "\<exists>h'. Reserve T n this h = Throw element_exception (this, h')"
        by (rule abort) simp
      moreover have "\<exists>i<m. move_throws T (xs ! i)" using k thr by blast
      ultimately show ?thesis using move by (auto simp add: set_conv)
    qed
  next
    case nomove: False
    show ?thesis
    proof (cases "is_copy_constructible T")
      case True
      with nomove have sel: "r = uninitialized_copy_n T b m d h1"
        unfolding r_def by auto
      note r = uninitialized_copy_n_result [of m h1 b "(!) xs" d T, OF src dst disj]
      show ?thesis
      proof (cases "\<exists>i<m. copy_ctor_throws T (xs ! i)")
        case thr: True
        with r have r': "uninitialized_copy_n T b m d h1 = Throw element_exception h1" by simp
        have "buffer_m (data_m this) + capacity_m (data_m this) \<le> d" "0 < d"
          using af(4) unfolding b_def c_def d_def by simp_all
        from release_new_block [OF af(1) af(3) this]
        obtain h' where "RawMemory_dtor nd h1 = Normal () h'" "represents this h' xs"
          unfolding nd_def by blast
        then have "Reserve T n this h = Throw element_exception (this, h') \<and> represents this h' xs"
          using unf sel r' by simp
        with thr nomove True show ?thesis by (auto simp add: set_conv)
      next
        case no: False
        let ?h2 = "h1\<lparr>cells := (\<lambda>a. if d \<le> a \<and> a < d + m then Live (xs ! (a - d)) else cells h1 a)\<rparr>"
        from r no have r': "uninitialized_copy_n T b m d h1 = Normal () ?h2" by simp
        have old2: "\<And>i. i < m \<Longrightarrow> \<exists>v. cell ?h2 (b + i) = Live v"
          using src af(4) mc by (auto dest!: cell_LiveD)
        have new2: "\<And>i. i < n \<Longrightarrow> cell ?h2 (d + i) = (if i < m then Live (xs ! i) else Raw)"
          using af(2) af(4) mc by (auto simp: h1_def d_def cell_def)
        from commit [of ?h2, OF _ old2 new2] sel r'
        have "\<exists>h'. Reserve T n this h = Normal () (?this', h') \<and> represents ?this' h' xs"
          by simp
        with no nomove True show ?thesis by (auto simp add: set_conv nd_def d_def)
      qed
    next
      case False
      with nomove have "\<not> is_nothrow_move_constructible T" "\<not> is_copy_constructible T"
        "\<not> is_move_constructible T" by auto
      then have "r = Fault static_assertion_failed" unfolding r_def by simp
      with unf nomove False show ?thesis by simp
    qed
  qed
qed

lemma Reserve_bad_alloc:
  "Capacity this < n \<Longrightarrow> 0 < sizeof_T h \<Longrightarrow> n * sizeof_T h < 2 ^ 64 \<Longrightarrow> limit h < brk h + n \<Longrightarrow>
   Reserve T n this h = Throw bad_alloc (this, h)"
  by (simp add: Reserve_def Capacity_def RawMemory_ctor_pos)

lemma represents_two_cells: "represents full2 (two_cells a b) [a, b]"
  by (simp add: represents_def full2_def two_cells_def cell_def upt_rec)

lemma fixture_simps:
  "Capacity full2 = 2" "size_m full2 = 2" "data_m full2 = \<lparr>buffer_m = 1, capacity_m = 2\<rparr>"
  "brk (two_cells a b) = 2" "limit (two_cells a b) = 100" "sizeof_T (two_cells a b) = 4"
  "is_nothrow_move_constructible Obj = False" "is_copy_constructible Obj = True"
  "is_move_constructible Obj = True"
  "copy_ctor_throws Obj v = (v = 13)" "move_ctor_throws Obj v = (v = 13)"
  "copy_assign_throws Obj v = (v = 13)" "move_assign_throws Obj v = (v = 13)"
  "moved_from Obj v = 0"
  by (simp_all add: Capacity_def RawMemory_Capacity_def full2_def two_cells_def Obj_def)

lemma EmplaceBack_full_unfold:
  assumes "size_m this = Capacity this"
    and "RawMemory_ctor (if size_m this = 0 then 1 else (size_m this * 2) mod 2 ^ 64) h = Normal nd h1"
    and "size_m this \<le> capacity_m nd"
    and "r = and_then (construct_args T (buffer_m nd + size_m this) args h1)
               (\<lambda>_ h2. try_catch
                  (if is_nothrow_move_constructible T \<or> \<not> is_copy_constructible T then
                     uninitialized_move_n T (buffer_m (data_m this)) (size_m this) (buffer_m nd) h2
                   else
                     uninitialized_copy_n T (buffer_m (data_m this)) (size_m this) (buffer_m nd) h2)
                  (\<lambda>e h3. and_then (destroy_at (buffer_m nd + size_m this) h3) (\<lambda>_. Throw e)))"
  shows "EmplaceBack T args this h =
     and_then
       (case and_then r (\<lambda>_. destroy_n (buffer_m (data_m this)) (size_m this)) of
          Normal _ h4 \<Rightarrow> on_object (this\<lparr>data_m := nd\<rparr>) (RawMemory_dtor (data_m this) h4)
        | Throw e h4 \<Rightarrow> on_object this (and_then (RawMemory_dtor nd h4) (\<lambda>_. Throw e))
        | Fault x \<Rightarrow> Fault x)
       (\<lambda>_ s. with_address (RawMemory_at (data_m (fst s)) (size_m (fst s) + 1 - 1))
                 (\<lambda>r. Normal r ((fst s)\<lparr>size_m := size_m (fst s) + 1\<rparr>, snd s)))"
  using assms(1,2,3) unfolding assms(4)
  by (cases "size_m this = 0")
    (simp_all add: EmplaceBack_def GetAddress_def RawMemory_plus_def cong: outcome.case_cong if_cong)

lemma EmplaceBack_full_Throw:
  assumes "size_m this = Capacity this"
    and "RawMemory_ctor (if size_m this = 0 then 1 else (size_m this * 2) mod 2 ^ 64) h = Normal nd h1"
    and "size_m this \<le> capacity_m nd"
    and "and_then (construct_args T (buffer_m nd + size_m this) args h1)
               (\<lambda>_ h2. try_catch
                  (if is_nothrow_move_constructible T \<or> \<not> is_copy_constructible T then
                     uninitialized_move_n T (buffer_m (data_m this)) (size_m this) (buffer_m nd) h2
                   else
                     uninitialized_copy_n T (buffer_m (data_m this)) (size_m this) (buffer_m nd) h2)
                  (\<lambda>e h3. and_then (destroy_at (buffer_m nd + size_m this) h3) (\<lambda>_. Throw e)))
           = Throw e h4"
    and "RawMemory_dtor nd h4 = Normal () h5"
  shows "EmplaceBack T args this h = Throw e (this, h5)"
  using EmplaceBack_full_unfold [OF assms(1,2,3) refl, of T args] assms(4,5)
  by simp


lemma nth_moved_prefix:
  "k \<le> length xs \<Longrightarrow> i < length xs \<Longrightarrow>
   (map g (take k xs) @ drop k xs) ! i = (if i < k then g (xs ! i) else xs ! i)"
  by (simp add: nth_append min_def)

lemma represents_moved_prefix:
  assumes rep: "represents this h xs" and k: "k \<le> length xs"
  shows "represents this
           (h\<lparr>cells := (\<lambda>a. if buffer_m (data_m this) \<le> a \<and> a < buffer_m (data_m this) + k
                            then Live (moved_from T (xs ! (a - buffer_m (data_m this))))
                            else cells h a)\<rparr>)
           (map (moved_from T) (take k xs) @ drop k xs)"
proof -
  define b where "b = buffer_m (data_m this)"
  let ?h' = "h\<lparr>cells := (\<lambda>a. if b \<le> a \<and> a < b + k then Live (moved_from T (xs ! (a - b))) else cells h a)\<rparr>"
  have cellh: "\<And>i. i < capacity_m (data_m this) \<Longrightarrow>
      cell h (b + i) = (if i < length xs then Live (xs ! i) else Raw)"
    using rep by (simp add: represents_iff b_def)
  have "cell ?h' (b + i) =
      (if i < length (map (moved_from T) (take k xs) @ drop k xs)
       then Live ((map (moved_from T) (take k xs) @ drop k xs) ! i) else Raw)"
    if i: "i < capacity_m (data_m this)" for i
  proof -
    from cellh [OF i] have "cell h (b + i) \<noteq> Unallocated" by (simp split: if_splits)
    from cell_in_store [OF this] cellh [OF i] k
    show ?thesis by (auto simp add: nth_moved_prefix)
  qed
  then show ?thesis
    using rep k unfolding b_def by (simp add: represents_iff)
qed


lemma double_no_wrap:
  "2 * (n::nat) < 2 ^ 64 \<Longrightarrow> (n * 2) mod 2 ^ 64 = 2 * n"
  by (simp add: mult.commute)

lemma fixture_simps2:
  "is_nothrow_move_constructible MoveOnly = False" "is_copy_constructible MoveOnly = False"
  "is_move_constructible MoveOnly = True"
  "copy_ctor_throws MoveOnly v = (v = 13)" "move_ctor_throws MoveOnly v = (v = 13)"
  "copy_assign_throws MoveOnly v = (v = 13)" "move_assign_throws MoveOnly v = (v = 13)"
  "moved_from MoveOnly v = 0"
  by (simp_all add: MoveOnly_def Obj_def)

section \<open>The object a call ends with\<close>

lemma and_then_eq_Normal:
  "(and_then m f = Normal r s) = (\<exists>r1 s1. m = Normal r1 s1 \<and> f r1 s1 = Normal r s)"
  by (cases m) auto

lemma on_object_eq_Normal:
  "(on_object t m = Normal r s) = (\<exists>h. m = Normal r h \<and> s = (t, h))"
  by (cases m) auto

lemma with_address_eq_Normal:
  "(with_address p f = Normal r s) = (\<exists>a. p = Inr a \<and> f a = Normal r s)"
  by (cases p) auto

lemma RawMemory_ctor_capacity:
  "RawMemory_ctor n h = Normal nd h1 \<Longrightarrow> capacity_m nd = n"
  by (auto simp add: RawMemory_ctor_def Allocate_def operator_new_def Let_def split: if_splits)

lemma RawMemory_dtor_no_throw: "RawMemory_dtor rm h \<noteq> Throw e h'"
  by (simp add: RawMemory_dtor_def Deallocate_def operator_delete_def split: option.splits)

lemma ends_with_release: "N t \<Longrightarrow> ends_with N X (on_object t (RawMemory_dtor rm h))"
  using RawMemory_dtor_no_throw [of rm h] by (cases "RawMemory_dtor rm h") auto

lemma ends_with_rethrow: "X t \<Longrightarrow> ends_with N X (on_object t (and_then m (\<lambda>_. Throw e)))"
  by (cases m) simp_all

lemma ends_with_Throw: "X (fst s) \<Longrightarrow> ends_with N X (Throw e s)"
  by simp

lemma ends_with_and_then:
  "ends_with N' X m \<Longrightarrow> (\<And>r s. m = Normal r s \<Longrightarrow> N' (fst s) \<Longrightarrow> ends_with N X (f r s)) \<Longrightarrow>
   ends_with N X (and_then m f)"
  by (cases m) simp_all

lemma ends_with_with_address:
  "(\<And>a. p = Inr a \<Longrightarrow> ends_with N X (f a)) \<Longrightarrow> ends_with N X (with_address p f)"
  by (cases p) simp_all

lemma ends_with_mono:
  "ends_with N X m \<Longrightarrow> (\<And>t. N t \<Longrightarrow> N' t) \<Longrightarrow> (\<And>t. X t \<Longrightarrow> X' t) \<Longrightarrow> ends_with N' X' m"
  by (cases m) simp_all

lemma ends_with_unchanged:
  "X t \<Longrightarrow> ends_with N X (on_object t (and_then m (\<lambda>_. Normal r))) \<longleftrightarrow>
     (\<forall>r1 h1. m = Normal r1 h1 \<longrightarrow> N t)"
  by (cases m) simp_all

lemma Vector_rebuild: "(this :: Vector)\<lparr>data_m := nd, size_m := k\<rparr> = \<lparr>data_m = nd, size_m = k\<rparr>"
  by (cases this) simp

text \<open>The body of a growth: what the object is when the block of the growth ends.\<close>

lemma ends_with_growth:
  "ends_with (\<lambda>t. t = this\<lparr>data_m := nd\<rparr>) (\<lambda>t. t = this)
     (case m of
        Normal _ h4 \<Rightarrow>
          (case RawMemory_Swap (data_m this, nd) of
             (d, old) \<Rightarrow> on_object (this\<lparr>data_m := d\<rparr>) (RawMemory_dtor old h4))
      | Throw e h4 \<Rightarrow> on_object this (and_then (RawMemory_dtor nd h4) (\<lambda>_. Throw e))
      | Fault x \<Rightarrow> Fault x)"
  by (cases m) (simp_all add: ends_with_release ends_with_rethrow)

lemma EmplaceBack_ends:
  "ends_with
     (\<lambda>t. if size_m this = Capacity this
          then \<exists>nd. t = \<lparr>data_m = nd, size_m = size_m this + 1\<rparr> \<and>
                 capacity_m nd = (if size_m this = 0 then 1 else (size_m this * 2) mod 2 ^ 64) \<and>
                 size_m this < capacity_m nd
          else t = this\<lparr>size_m := size_m this + 1\<rparr> \<and> size_m this < Capacity this)
     (\<lambda>t. t = this)
     (EmplaceBack T args this h)"
  unfolding EmplaceBack_def
proof (rule ends_with_and_then [where N' = "\<lambda>t. if size_m this = Capacity this
          then \<exists>nd. t = this\<lparr>data_m := nd\<rparr> \<and>
                 capacity_m nd = (if size_m this = 0 then 1 else (size_m this * 2) mod 2 ^ 64)
          else t = this"])
  show "ends_with (\<lambda>t. if size_m this = Capacity this
          then \<exists>nd. t = this\<lparr>data_m := nd\<rparr> \<and>
                 capacity_m nd = (if size_m this = 0 then 1 else (size_m this * 2) mod 2 ^ 64)
          else t = this) (\<lambda>t. t = this)
     (if size_m this = Capacity this then
          (case RawMemory_ctor (if size_m this = 0 then 1 else (size_m this * 2) mod 2 ^ 64) h of
             Normal new_data h1 \<Rightarrow>
               (case and_then
                       (with_address (RawMemory_plus new_data (size_m this))
                          (\<lambda>p. and_then (construct_args T p args h1)
                             (\<lambda>_ h2.
                                try_catch
                                  (if is_nothrow_move_constructible T \<or> \<not> is_copy_constructible T then
                                     uninitialized_move_n T (GetAddress (data_m this)) (size_m this) (GetAddress new_data) h2
                                   else
                                     uninitialized_copy_n T (GetAddress (data_m this)) (size_m this) (GetAddress new_data) h2)
                                  (\<lambda>e h3. with_address (RawMemory_plus new_data (size_m this))
                                     (\<lambda>q. and_then (destroy_at q h3) (\<lambda>_. Throw e))))))
                       (\<lambda>_. destroy_n (GetAddress (data_m this)) (size_m this)) of
                  Normal _ h4 \<Rightarrow>
                    (case RawMemory_Swap (data_m this, new_data) of
                       (d, old) \<Rightarrow> on_object (this\<lparr>data_m := d\<rparr>) (RawMemory_dtor old h4))
                | Throw e h4 \<Rightarrow> on_object this (and_then (RawMemory_dtor new_data h4) (\<lambda>_. Throw e))
                | Fault x \<Rightarrow> Fault x)
           | Throw e h1 \<Rightarrow> Throw e (this, h1)
           | Fault x \<Rightarrow> Fault x)
        else
          with_address (RawMemory_plus (data_m this) (size_m this))
            (\<lambda>p. on_object this (and_then (construct_args T p args h) (\<lambda>_. Normal ()))))"
  proof (cases "size_m this = Capacity this")
    case True
    show ?thesis
    proof (cases "RawMemory_ctor (if size_m this = 0 then 1 else (size_m this * 2) mod 2 ^ 64) h")
      case (Normal nd h1)
      from RawMemory_ctor_capacity [OF Normal] True show ?thesis
        unfolding Normal
        by (auto intro!: ends_with_mono [OF ends_with_growth])
    qed (use True in simp_all)
  next
    case False
    then show ?thesis
      by (cases "RawMemory_plus (data_m this) (size_m this)";
          cases "construct_args T (projr (RawMemory_plus (data_m this) (size_m this))) args h")
         simp_all
  qed
next
  fix r :: unit and s :: "Vector \<times> 'a heap"
  assume "if size_m this = Capacity this
          then \<exists>nd. fst s = this\<lparr>data_m := nd\<rparr> \<and>
                 capacity_m nd = (if size_m this = 0 then 1 else (size_m this * 2) mod 2 ^ 64)
          else fst s = this"
  then show "ends_with
     (\<lambda>t. if size_m this = Capacity this
          then \<exists>nd. t = \<lparr>data_m = nd, size_m = size_m this + 1\<rparr> \<and>
                 capacity_m nd = (if size_m this = 0 then 1 else (size_m this * 2) mod 2 ^ 64) \<and>
                 size_m this < capacity_m nd
          else t = this\<lparr>size_m := size_m this + 1\<rparr> \<and> size_m this < Capacity this)
     (\<lambda>t. t = this)
     (with_address (RawMemory_at (data_m (fst s)) (size_m (fst s) + 1 - 1))
            (\<lambda>r. Normal r ((fst s)\<lparr>size_m := size_m (fst s) + 1\<rparr>, snd s)))"
    by (auto simp add: RawMemory_at_def Capacity_def RawMemory_Capacity_def Vector_rebuild
          split: if_splits intro!: ends_with_with_address)
qed


lemma ends_with_release_return:
  "N t \<Longrightarrow> ends_with N X (and_then (on_object t (RawMemory_dtor rm h)) (\<lambda>_. Normal r))"
  using RawMemory_dtor_no_throw [of rm h] by (cases "RawMemory_dtor rm h") auto

lemma ends_with_in_place:
  "N (k t) \<Longrightarrow> X t \<Longrightarrow>
   ends_with N X (and_then (on_object t m) (\<lambda>_ s. Normal (g s) (k (fst s), snd s)))"
  by (cases m) simp_all

lemma ends_with_growth_return:
  "ends_with (\<lambda>t. t = this\<lparr>data_m := nd, size_m := size_m this + 1\<rparr>) (\<lambda>t. t = this)
     (case m of
        Normal _ h4 \<Rightarrow>
          (case RawMemory_Swap (data_m this, nd) of
             (d, old) \<Rightarrow>
               let this1 = this\<lparr>data_m := d, size_m := size_m this + 1\<rparr> in
               and_then (on_object this1 (RawMemory_dtor old h4)) (\<lambda>_. Normal (g this1)))
      | Throw e h4 \<Rightarrow> on_object this (and_then (RawMemory_dtor nd h4) (\<lambda>_. Throw e))
      | Fault x \<Rightarrow> Fault x)"
  by (cases m) (simp_all add: ends_with_release_return ends_with_rethrow Let_def)

lemma Emplace_ends:
  "ends_with
     (\<lambda>t. if size_m this = Capacity this
          then \<exists>nd. t = \<lparr>data_m = nd, size_m = size_m this + 1\<rparr> \<and>
                 capacity_m nd = (if size_m this = 0 then 1 else (size_m this * 2) mod 2 ^ 64)
          else t = this\<lparr>size_m := size_m this + 1\<rparr>)
     (\<lambda>t. t = this)
     (Emplace T pos args this h)"
proof (cases "Vector_begin this \<le> pos \<and> pos < Vector_end this")
  case False
  then show ?thesis by (simp add: Emplace_def)
next
  case pre: True
  show ?thesis
  proof (cases "size_m this = Capacity this")
    case True
    show ?thesis
    proof (cases "RawMemory_ctor (if size_m this = 0 then 1 else (size_m this * 2) mod 2 ^ 64) h")
      case (Normal nd h1)
      from RawMemory_ctor_capacity [OF Normal] True pre show ?thesis
        unfolding Emplace_def Let_def Normal
        by (auto simp add: Vector_rebuild intro!: ends_with_mono [OF ends_with_growth_return [unfolded Let_def]])
    qed (use True pre in \<open>simp_all add: Emplace_def Let_def\<close>)
  next
    case False
    show ?thesis
    proof (cases "construct_from T args h")
      case (Normal tmp h0)
      with False pre show ?thesis
        unfolding Emplace_def Let_def
        by (auto intro!: ends_with_in_place)
    qed (use False pre in \<open>simp_all add: Emplace_def Let_def\<close>)
  qed
qed


lemma wrap_double:
  "(n::nat) < (n * 2) mod 2 ^ 64 \<Longrightarrow> (n * 2) mod 2 ^ 64 = 2 * n"
proof (cases "n * 2 < 2 ^ 64")
  case True
  then show ?thesis by simp
next
  case False
  assume less: "n < (n * 2) mod 2 ^ 64"
  have "(n * 2) mod 2 ^ 64 \<le> n * 2 - 2 ^ 64"
    using False by (metis le_mod_geq mod_less_eq_dividend not_less)
  with less have "(2::nat) ^ 64 < n" by simp
  moreover have "(n * 2) mod 2 ^ 64 < (2::nat) ^ 64" by simp
  ultimately show ?thesis using less by simp
qed

lemma Reserve_ends:
  "ends_with
     (\<lambda>t. if n \<le> Capacity this then t = this
          else \<exists>nd. t = this\<lparr>data_m := nd\<rparr> \<and> capacity_m nd = n)
     (\<lambda>t. t = this)
     (Reserve T n this h)"
proof (cases "n \<le> Capacity this")
  case True
  then show ?thesis by (simp add: Reserve_def Capacity_def)
next
  case False
  show ?thesis
  proof (cases "RawMemory_ctor n h")
    case (Normal nd h1)
    from RawMemory_ctor_capacity [OF Normal] False show ?thesis
      unfolding Reserve_def Normal
      by (auto simp add: Capacity_def intro!: ends_with_mono [OF ends_with_growth])
  qed (use False in \<open>simp_all add: Reserve_def Capacity_def\<close>)
qed

lemma ends_with_commit:
  "N t' \<Longrightarrow> X t \<Longrightarrow>
   ends_with N X (case m of Normal _ h1 \<Rightarrow> Normal r (t', h1) | Throw e h1 \<Rightarrow> Throw e (t, h1) | Fault x \<Rightarrow> Fault x)"
  by (cases m) simp_all

lemma Reserve_invariant: "invariant this \<Longrightarrow> holds_after invariant (Reserve T n this h)"
  unfolding holds_after_def
  by (rule ends_with_mono [OF Reserve_ends])
     (auto simp add: invariant_def Size_def Capacity_def RawMemory_Capacity_def split: if_splits)

lemma Resize_invariant: "invariant this \<Longrightarrow> holds_after invariant (Resize T n this h)"
proof (cases "n > size_m this")
  case True
  assume inv: "invariant this"
  have "ends_with invariant invariant (and_then (Reserve T n this h)
          (\<lambda>_ s.
             case uninitialized_value_construct_n T (GetAddress (data_m (fst s)) + size_m (fst s))
                    (n - size_m (fst s)) (snd s) of
               Normal _ h2 \<Rightarrow> Normal () ((fst s)\<lparr>size_m := n\<rparr>, h2)
             | Throw e h2 \<Rightarrow> Throw e (fst s, h2)
             | Fault x \<Rightarrow> Fault x))"
  proof (rule ends_with_and_then [where N' = "\<lambda>t. invariant t \<and> n \<le> Capacity t"])
    show "ends_with (\<lambda>t. invariant t \<and> n \<le> Capacity t) invariant (Reserve T n this h)"
      using inv
      by (intro ends_with_mono [OF Reserve_ends])
         (auto simp add: invariant_def Size_def Capacity_def RawMemory_Capacity_def split: if_splits)
  next
    fix r :: unit and s :: "Vector \<times> 'a heap"
    assume "invariant (fst s) \<and> n \<le> Capacity (fst s)"
    then have "invariant (fst s)" "invariant ((fst s)\<lparr>size_m := n\<rparr>)"
      by (simp_all add: invariant_def Size_def Capacity_def RawMemory_Capacity_def)
    then show "ends_with invariant invariant
          (case uninitialized_value_construct_n T (GetAddress (data_m (fst s)) + size_m (fst s))
                    (n - size_m (fst s)) (snd s) of
               Normal _ h2 \<Rightarrow> Normal () ((fst s)\<lparr>size_m := n\<rparr>, h2)
             | Throw e h2 \<Rightarrow> Throw e (fst s, h2)
             | Fault x \<Rightarrow> Fault x)"
      by (intro ends_with_commit)
  qed
  with True show ?thesis by (simp add: Resize_def holds_after_def)
next
  case False
  assume inv: "invariant this"
  then have "invariant (this\<lparr>size_m := n\<rparr>)"
    using False by (simp add: invariant_def Size_def Capacity_def RawMemory_Capacity_def)
  with inv False show ?thesis
    by (simp add: Resize_def holds_after_def ends_with_commit)
qed

lemma PopBack_invariant: "invariant this \<Longrightarrow> holds_after invariant (PopBack this h)"
proof -
  assume inv: "invariant this"
  then have "invariant (this\<lparr>size_m := size_m this - 1\<rparr>)"
    by (simp add: invariant_def Size_def Capacity_def RawMemory_Capacity_def)
  with inv show ?thesis
    by (simp add: PopBack_def holds_after_def ends_with_commit)
qed

lemma Erase_invariant: "invariant this \<Longrightarrow> holds_after invariant (Erase T pos this h)"
proof -
  assume inv: "invariant this"
  then have inv': "invariant (this\<lparr>size_m := size_m this - 1\<rparr>)"
    by (simp add: invariant_def Size_def Capacity_def RawMemory_Capacity_def)
  show ?thesis
  proof (cases "std_move T (pos + 1) (Vector_end this) pos h")
    case (Normal r h1)
    have "ends_with invariant invariant
        (on_object (this\<lparr>size_m := size_m this - 1\<rparr>) (and_then (destroy_at p h1) (\<lambda>_. Normal pos)))" for p
      using inv' by (cases "destroy_at p h1") simp_all
    then show ?thesis
      unfolding Erase_def holds_after_def Normal Let_def
      by (auto intro!: ends_with_with_address)
  qed (use inv in \<open>simp_all add: Erase_def holds_after_def\<close>)
qed

lemma EmplaceBack_invariant: "invariant this \<Longrightarrow> holds_after invariant (EmplaceBack T args this h)"
  unfolding holds_after_def
  by (rule ends_with_mono [OF EmplaceBack_ends])
     (auto simp add: invariant_def Size_def Capacity_def RawMemory_Capacity_def split: if_splits)

lemma holds_after_discard:
  "holds_after P m \<Longrightarrow> holds_after P (and_then m (\<lambda>_. Normal r))"
  by (cases m) (simp_all add: holds_after_def)

lemma Emplace_invariant:
  assumes "invariant this" and "2 * Capacity this < 2 ^ 64"
  shows "holds_after invariant (Emplace T pos args this h)"
  unfolding holds_after_def
proof (rule ends_with_mono [OF Emplace_ends])
  fix t
  assume "if size_m this = Capacity this
          then \<exists>nd. t = \<lparr>data_m = nd, size_m = size_m this + 1\<rparr> \<and>
                 capacity_m nd = (if size_m this = 0 then 1 else (size_m this * 2) mod 2 ^ 64)
          else t = this\<lparr>size_m := size_m this + 1\<rparr>"
  with assms show "invariant t"
    by (auto simp add: invariant_def Size_def Capacity_def RawMemory_Capacity_def mult.commute
          split: if_splits)
qed (use assms in simp)

lemma Vector_ctor_size_invariant: "constructed invariant (Vector_ctor_size T n h)"
proof (cases "RawMemory_ctor n h")
  case (Normal d h1)
  from RawMemory_ctor_capacity [OF Normal] show ?thesis
    by (cases "uninitialized_value_construct_n T (GetAddress d) n h1")
       (auto simp add: Vector_ctor_size_def Normal invariant_def Size_def Capacity_def
          RawMemory_Capacity_def and_then_def split: outcome.splits)
qed (simp_all add: Vector_ctor_size_def)

lemma Vector_copy_ctor_invariant: "constructed invariant (Vector_copy_ctor T other h)"
proof (cases "RawMemory_ctor (size_m other) h")
  case (Normal d h1)
  from RawMemory_ctor_capacity [OF Normal] show ?thesis
    by (cases "uninitialized_copy_n T (GetAddress (data_m other)) (size_m other) (GetAddress d) h1")
       (auto simp add: Vector_copy_ctor_def Normal invariant_def Size_def Capacity_def
          RawMemory_Capacity_def and_then_def split: outcome.splits)
qed (simp_all add: Vector_copy_ctor_def)

lemma destroy_n_no_throw: "destroy_n a n g \<noteq> Throw e g'"
  by (induction n arbitrary: a g)
     (auto simp add: destroy_at_def and_then_def split: cell.splits outcome.splits)

lemma Vector_dtor_no_throw: "Vector_dtor v h \<noteq> Throw e h'"
  using destroy_n_no_throw [of "GetAddress (data_m v)" "size_m v" h] RawMemory_dtor_no_throw
  by (cases "destroy_n (GetAddress (data_m v)) (size_m v) h") (simp_all add: Vector_dtor_def)

lemma CopyAssignNoRealloc_ends:
  "ends_with (\<lambda>t. t = this\<lparr>size_m := size_m rhs\<rparr>) (\<lambda>t. t = this)
     (CopyAssignNoRealloc T this rhs h)"
  unfolding CopyAssignNoRealloc_def Let_def
  by (intro ends_with_with_address ends_with_commit) simp_all

lemma Vector_copy_assign_invariant:
  assumes "\<forall>v. invariant (objs v)"
  shows "holds_after (\<lambda>objs'. \<forall>v. invariant (objs' v)) (Vector_copy_assign T this rhs objs h)"
proof (cases "this = rhs")
  case True
  with assms show ?thesis by (simp add: Vector_copy_assign_def holds_after_def)
next
  case ne: False
  show ?thesis
  proof (cases "size_m (objs rhs) > RawMemory_Capacity (data_m (objs this))")
    case True
    show ?thesis
    proof (cases "Vector_copy_ctor T (objs rhs) h")
      case (Normal tmp h1)
      with Vector_copy_ctor_invariant [of T "objs rhs" h] have "invariant tmp" by simp
      with assms have "\<forall>v. invariant ((objs(this := tmp)) v)" by simp
      then have "ends_with (\<lambda>objs'. \<forall>v. invariant (objs' v)) (\<lambda>objs'. \<forall>v. invariant (objs' v))
          (on_object (objs(this := tmp)) (Vector_dtor (objs this) h1))"
        by (cases "Vector_dtor (objs this) h1") simp_all
      with ne True Normal show ?thesis
        by (simp add: Vector_copy_assign_def holds_after_def)
    qed (use ne True assms in \<open>simp_all add: Vector_copy_assign_def holds_after_def\<close>)
  next
    case False
    then have "invariant ((objs this)\<lparr>size_m := size_m (objs rhs)\<rparr>)"
      by (simp add: invariant_def Size_def Capacity_def)
    with assms have *: "\<forall>v. invariant ((objs(this := (objs this)\<lparr>size_m := size_m (objs rhs)\<rparr>)) v)"
      by simp
    have "ends_with (\<lambda>objs'. \<forall>v. invariant (objs' v)) (\<lambda>objs'. \<forall>v. invariant (objs' v))
        (case CopyAssignNoRealloc T (objs this) (objs rhs) h of
              Normal r s \<Rightarrow> Normal r (objs(this := fst s), snd s)
            | Throw e s \<Rightarrow> Throw e (objs(this := fst s), snd s)
            | Fault x \<Rightarrow> Fault x)"
      using * assms CopyAssignNoRealloc_ends [where this = "objs this" and rhs = "objs rhs" and T = T and h = h]
      by (cases "CopyAssignNoRealloc T (objs this) (objs rhs) h") simp_all
    with ne False show ?thesis
      by (simp add: Vector_copy_assign_def holds_after_def)
  qed
qed

lemma grown_capacity:
  assumes "capacity_m nd = (if n = 0 then 1 else (n * 2) mod 2 ^ 64)"
    and "n < capacity_m nd \<or> 2 * n < 2 ^ 64"
  shows "capacity_m nd = max 1 (2 * n)"
proof (cases "n = 0")
  case True
  with assms(1) show ?thesis by simp
next
  case False
  from assms(2) have "(n * 2) mod 2 ^ 64 = 2 * n"
  proof
    assume "n < capacity_m nd"
    with assms(1) False have "n < (n * 2) mod 2 ^ 64" by simp
    then show ?thesis by (rule wrap_double)
  next
    assume "2 * n < 2 ^ 64"
    then show ?thesis by (rule double_no_wrap)
  qed
  with False assms(1) show ?thesis by simp
qed

section \<open>Shifting the elements after a position\<close>

text \<open>
  \<^verbatim>\<open>std::move(pos + 1, end(), pos)\<close> assigns each element to the slot before it, front to
  back, so the source of one round is the destination of the next. When no assignment throws,
  the slots from \<open>d\<close> hold the elements that followed and the last source slot is left
  moved-from; when one throws, the loop stops there.
\<close>

lemma move_assign_result:
  "cell h dst = Live w \<Longrightarrow> cell h src = Live v \<Longrightarrow>
   move_assign T dst src h =
     (if move_assign_throws T v then Throw element_exception h
      else Normal () (h\<lparr>cells := (cells h)(src := Live (moved_from T v), dst := Live v)\<rparr>))"
  by (simp add: move_assign_def)

lemma move_loop_shift:
  assumes "cell h d = Live w" and "\<forall>i<n. cell h (d + 1 + i) = Live (f i)"
  shows "(\<not> (\<exists>i<n. move_assign_throws T (f i)) \<and>
          move_loop T (d + 1) n d h =
            Normal () (h\<lparr>cells := (\<lambda>a. if d \<le> a \<and> a < d + n then Live (f (a - d))
                                     else if a = d + n \<and> 0 < n then Live (moved_from T (f (n - 1)))
                                     else cells h a)\<rparr>)) \<or>
         ((\<exists>i<n. move_assign_throws T (f i)) \<and>
          (\<exists>h'. move_loop T (d + 1) n d h = Throw element_exception h'))"
  using assms
proof (induction n arbitrary: d h f w)
  case 0
  have "(\<lambda>a. if d \<le> a \<and> a < d + 0 then Live (f (a - d))
             else if a = d + 0 \<and> 0 < (0::nat) then Live (moved_from T (f (0 - 1)))
             else cells h a) = cells h"
    by (auto simp: fun_eq_iff)
  then show ?case by simp
next
  case (Suc n)
  have dst: "cell h d = Live w" by (rule Suc.prems(1))
  have src: "cell h (d + 1) = Live (f 0)" using Suc.prems(2) by (auto dest: spec [of _ 0])
  have unf: "move_loop T (d + 1) (Suc n) d h =
      and_then (move_assign T d (d + 1) h) (\<lambda>_. move_loop T (d + 1 + 1) n (d + 1))"
    by (rule move_loop.simps(2))
  show ?case
  proof (cases "move_assign_throws T (f 0)")
    case True
    then have "move_loop T (d + 1) (Suc n) d h = Throw element_exception h"
      unfolding unf move_assign_result [OF dst src] by simp
    with True show ?thesis by blast
  next
    case False
    let ?h1 = "h\<lparr>cells := (cells h)(d + 1 := Live (moved_from T (f 0)), d := Live (f 0))\<rparr>"
    let ?g = "f \<circ> Suc"
    have step: "move_loop T (d + 1) (Suc n) d h = move_loop T (d + 1 + 1) n (d + 1) ?h1"
      unfolding unf move_assign_result [OF dst src] using False by simp
    have in1: "0 < d + 1 \<and> d + 1 \<le> brk h" using cell_LiveD [OF src] by simp
    have dst1: "cell ?h1 (d + 1) = Live (moved_from T (f 0))" using in1 by simp
    have src1: "\<forall>i<n. cell ?h1 (d + 1 + 1 + i) = Live (?g i)"
    proof (intro allI impI)
      fix i assume "i < n"
      then have "Suc i < Suc n" by simp
      with Suc.prems(2) have c: "cell h (d + 1 + Suc i) = Live (f (Suc i))" by blast
      from cell_LiveD [OF c] show "cell ?h1 (d + 1 + 1 + i) = Live (?g i)" by simp
    qed
    from Suc.IH [OF dst1 src1] show ?thesis
    proof (elim disjE)
      assume "\<not> (\<exists>i<n. move_assign_throws T (?g i)) \<and>
          move_loop T (d + 1 + 1) n (d + 1) ?h1 =
            Normal () (?h1\<lparr>cells := (\<lambda>a. if d + 1 \<le> a \<and> a < d + 1 + n then Live (?g (a - (d + 1)))
                                     else if a = d + 1 + n \<and> 0 < n then Live (moved_from T (?g (n - 1)))
                                     else cells ?h1 a)\<rparr>)"
      then have no: "\<not> (\<exists>i<n. move_assign_throws T (?g i))"
        and r: "move_loop T (d + 1 + 1) n (d + 1) ?h1 =
            Normal () (?h1\<lparr>cells := (\<lambda>a. if d + 1 \<le> a \<and> a < d + 1 + n then Live (?g (a - (d + 1)))
                                     else if a = d + 1 + n \<and> 0 < n then Live (moved_from T (?g (n - 1)))
                                     else cells ?h1 a)\<rparr>)"
        by blast+
      have "(\<lambda>a. if d + 1 \<le> a \<and> a < d + 1 + n then Live (?g (a - (d + 1)))
                 else if a = d + 1 + n \<and> 0 < n then Live (moved_from T (?g (n - 1)))
                 else cells ?h1 a) =
            (\<lambda>a. if d \<le> a \<and> a < d + Suc n then Live (f (a - d))
                 else if a = d + Suc n \<and> 0 < Suc n then Live (moved_from T (f (Suc n - 1)))
                 else cells h a)"
        by (auto simp: fun_eq_iff Suc_diff_Suc elim: less_SucE)
      then have "move_loop T (d + 1) (Suc n) d h =
          Normal () (h\<lparr>cells := (\<lambda>a. if d \<le> a \<and> a < d + Suc n then Live (f (a - d))
                 else if a = d + Suc n \<and> 0 < Suc n then Live (moved_from T (f (Suc n - 1)))
                 else cells h a)\<rparr>)"
        unfolding step r by simp
      moreover have "\<not> (\<exists>i<Suc n. move_assign_throws T (f i))"
        using no False by (simp add: Ex_less_Suc2)
      ultimately show ?thesis by blast
    next
      assume "(\<exists>i<n. move_assign_throws T (?g i)) \<and>
          (\<exists>h'. move_loop T (d + 1 + 1) n (d + 1) ?h1 = Throw element_exception h')"
      then obtain h' where thr: "\<exists>i<n. move_assign_throws T (?g i)"
        and r: "move_loop T (d + 1 + 1) n (d + 1) ?h1 = Throw element_exception h'"
        by blast
      have "move_loop T (d + 1) (Suc n) d h = Throw element_exception h'"
        unfolding step r by (rule refl)
      moreover have "\<exists>i<Suc n. move_assign_throws T (f i)"
        using thr by (simp add: Ex_less_Suc2)
      ultimately show ?thesis by blast
    qed
  qed
qed


lemma Erase_unfold:
  assumes "Vector_begin this \<le> pos" and "pos < Vector_end this" and "size_m this \<le> capacity_m (data_m this)"
  shows "Erase T pos this h =
     (case move_loop T (pos + 1) (Vector_end this - (pos + 1)) pos h of
        Normal _ h1 \<Rightarrow>
          on_object (this\<lparr>size_m := size_m this - 1\<rparr>)
            (and_then (destroy_at (buffer_m (data_m this) + (size_m this - 1)) h1) (\<lambda>_. Normal pos))
      | Throw e h1 \<Rightarrow> Throw e (this, h1)
      | Fault x \<Rightarrow> Fault x)"
proof -
  have "\<not> Vector_end this < pos + 1" using assms(2) by simp
  moreover have "size_m this - 1 \<le> capacity_m (data_m this)" using assms(3) by simp
  ultimately show ?thesis
    using assms(1,2)
    by (simp add: Erase_def std_move_def RawMemory_plus_def Let_def cong: outcome.case_cong)
qed

section \<open>Copying one array into another\<close>

text \<open>
  \<^verbatim>\<open>std::copy\<close> assigns front to back and stops at the first assignment that throws.
  An array that is represented in the store stays represented when a call writes only
  outside its block; the destructor of an array and the release of a block write only
  inside the block they are given.
\<close>

lemma copy_assign_result:
  "cell h dst = Live w \<Longrightarrow> cell h src = Live v \<Longrightarrow>
   copy_assign T dst src h =
     (if copy_assign_throws T v then Throw element_exception h
      else Normal () (h\<lparr>cells := (cells h)(dst := Live v)\<rparr>))"
  by (simp add: copy_assign_def)

lemma copy_loop_result:
  assumes "\<forall>i<n. cell h (first + i) = Live (f i)"
    and "\<forall>i<n. \<exists>w. cell h (d + i) = Live w"
    and "first + n \<le> d \<or> d + n \<le> first"
  shows "(\<not> (\<exists>i<n. copy_assign_throws T (f i)) \<and>
          copy_loop T first n d h =
            Normal () (h\<lparr>cells := (\<lambda>a. if d \<le> a \<and> a < d + n then Live (f (a - d)) else cells h a)\<rparr>)) \<or>
         (\<exists>k<n. copy_assign_throws T (f k) \<and> (\<forall>i<k. \<not> copy_assign_throws T (f i)) \<and>
          copy_loop T first n d h =
            Throw element_exception
              (h\<lparr>cells := (\<lambda>a. if d \<le> a \<and> a < d + k then Live (f (a - d)) else cells h a)\<rparr>))"
  using assms
proof (induction n arbitrary: first d h f)
  case 0
  have "(\<lambda>a. if d \<le> a \<and> a < d + 0 then Live (f (a - d)) else cells h a) = cells h"
    by (auto simp: fun_eq_iff)
  then show ?case by simp
next
  case (Suc n)
  have src: "cell h first = Live (f 0)" using Suc.prems(1) by (auto dest: spec [of _ 0])
  obtain w where dst: "cell h d = Live w" using Suc.prems(2) by (auto dest: spec [of _ 0])
  have unf: "copy_loop T first (Suc n) d h =
      and_then (copy_assign T d first h) (\<lambda>_. copy_loop T (first + 1) n (d + 1))"
    by (rule copy_loop.simps(2))
  show ?case
  proof (cases "copy_assign_throws T (f 0)")
    case True
    have "(\<lambda>a. if d \<le> a \<and> a < d + 0 then Live (f (a - d)) else cells h a) = cells h"
      by (auto simp: fun_eq_iff)
    then have "copy_loop T first (Suc n) d h =
        Throw element_exception
          (h\<lparr>cells := (\<lambda>a. if d \<le> a \<and> a < d + 0 then Live (f (a - d)) else cells h a)\<rparr>)"
      unfolding unf copy_assign_result [OF dst src] using True by simp
    with True show ?thesis by blast
  next
    case False
    define h1 where "h1 = h\<lparr>cells := (cells h)(d := Live (f 0))\<rparr>"
    let ?g = "f \<circ> Suc"
    have step: "copy_loop T first (Suc n) d h = copy_loop T (first + 1) n (d + 1) h1"
      unfolding unf copy_assign_result [OF dst src] h1_def using False by simp
    have cells1: "cells h1 = (cells h)(d := Live (f 0))" by (simp add: h1_def)
    have src1: "\<forall>i<n. cell h1 (first + 1 + i) = Live (?g i)"
    proof (intro allI impI)
      fix i assume i: "i < n"
      then have "Suc i < Suc n" by simp
      with Suc.prems(1) have c: "cell h (first + Suc i) = Live (f (Suc i))" by blast
      moreover have "first + Suc i \<noteq> d" using Suc.prems(3) i by auto
      ultimately show "cell h1 (first + 1 + i) = Live (?g i)"
        using cell_LiveD [OF c] by (simp add: h1_def)
    qed
    have dst1: "\<forall>i<n. \<exists>w. cell h1 (d + 1 + i) = Live w"
    proof (intro allI impI)
      fix i assume i: "i < n"
      then have "Suc i < Suc n" by simp
      with Suc.prems(2) obtain w where c: "cell h (d + Suc i) = Live w" by blast
      from cell_LiveD [OF c] have "cell h1 (d + 1 + i) = Live w" by (simp add: h1_def)
      then show "\<exists>w. cell h1 (d + 1 + i) = Live w" ..
    qed
    have disj1: "first + 1 + n \<le> d + 1 \<or> d + 1 + n \<le> first + 1" using Suc.prems(3) by auto
    from Suc.IH [OF src1 dst1 disj1] show ?thesis
    proof (elim disjE)
      assume "\<not> (\<exists>i<n. copy_assign_throws T (?g i)) \<and>
          copy_loop T (first + 1) n (d + 1) h1 =
            Normal () (h1\<lparr>cells := (\<lambda>a. if d + 1 \<le> a \<and> a < d + 1 + n then Live (?g (a - (d + 1))) else cells h1 a)\<rparr>)"
      then have no: "\<not> (\<exists>i<n. copy_assign_throws T (?g i))"
        and r: "copy_loop T (first + 1) n (d + 1) h1 =
            Normal () (h1\<lparr>cells := (\<lambda>a. if d + 1 \<le> a \<and> a < d + 1 + n then Live (?g (a - (d + 1))) else cells h1 a)\<rparr>)"
        by blast+
      have "(\<lambda>a. if d + 1 \<le> a \<and> a < d + 1 + n then Live (?g (a - (d + 1))) else cells h1 a) =
            (\<lambda>a. if d \<le> a \<and> a < d + Suc n then Live (f (a - d)) else cells h a)"
        unfolding cells1 by (auto simp: fun_eq_iff Suc_diff_Suc elim: less_SucE)
      then have "copy_loop T first (Suc n) d h =
          Normal () (h\<lparr>cells := (\<lambda>a. if d \<le> a \<and> a < d + Suc n then Live (f (a - d)) else cells h a)\<rparr>)"
        unfolding step r by (simp add: h1_def)
      moreover have "\<not> (\<exists>i<Suc n. copy_assign_throws T (f i))"
        using no False by (simp add: Ex_less_Suc2)
      ultimately show ?thesis by blast
    next
      assume "\<exists>k<n. copy_assign_throws T (?g k) \<and> (\<forall>i<k. \<not> copy_assign_throws T (?g i)) \<and>
          copy_loop T (first + 1) n (d + 1) h1 =
            Throw element_exception
              (h1\<lparr>cells := (\<lambda>a. if d + 1 \<le> a \<and> a < d + 1 + k then Live (?g (a - (d + 1))) else cells h1 a)\<rparr>)"
      then obtain k where k: "k < n" and thr: "copy_assign_throws T (?g k)"
        and before: "\<forall>i<k. \<not> copy_assign_throws T (?g i)"
        and r: "copy_loop T (first + 1) n (d + 1) h1 =
            Throw element_exception
              (h1\<lparr>cells := (\<lambda>a. if d + 1 \<le> a \<and> a < d + 1 + k then Live (?g (a - (d + 1))) else cells h1 a)\<rparr>)"
        by blast
      have "(\<lambda>a. if d + 1 \<le> a \<and> a < d + 1 + k then Live (?g (a - (d + 1))) else cells h1 a) =
            (\<lambda>a. if d \<le> a \<and> a < d + Suc k then Live (f (a - d)) else cells h a)"
        unfolding cells1 by (auto simp: fun_eq_iff Suc_diff_Suc elim: less_SucE)
      then have "copy_loop T first (Suc n) d h =
          Throw element_exception
            (h\<lparr>cells := (\<lambda>a. if d \<le> a \<and> a < d + Suc k then Live (f (a - d)) else cells h a)\<rparr>)"
        unfolding step r by (simp add: h1_def)
      moreover have "Suc k < Suc n" using k by simp
      moreover have "copy_assign_throws T (f (Suc k))" using thr by simp
      moreover have "\<forall>i<Suc k. \<not> copy_assign_throws T (f i)"
        using before False by (simp add: All_less_Suc2)
      ultimately show ?thesis by blast
    qed
  qed
qed

lemma represents_frame:
  assumes "represents v h xs"
    and "\<And>i. i < capacity_m (data_m v) \<Longrightarrow>
           cell h' (buffer_m (data_m v) + i) = cell h (buffer_m (data_m v) + i)"
    and "capacity_m (data_m v) \<noteq> 0 \<Longrightarrow> blocks h' (buffer_m (data_m v)) = blocks h (buffer_m (data_m v))"
    and "sizeof_T h' = sizeof_T h"
  shows "represents v h' xs"
  using assms by (auto simp add: represents_iff)


lemma live_prefix:
  assumes "represents v h xs" and "i < length xs"
  shows "cell h (buffer_m (data_m v) + i) = Live (xs ! i)"
proof -
  from assms have "i < capacity_m (data_m v)" by (simp add: represents_iff)
  moreover from assms(1) have "\<forall>i<capacity_m (data_m v).
      cell h (buffer_m (data_m v) + i) = (if i < length xs then Live (xs ! i) else Raw)"
    unfolding represents_iff by blast
  ultimately have "cell h (buffer_m (data_m v) + i) = (if i < length xs then Live (xs ! i) else Raw)"
    by blast
  with assms(2) show ?thesis by simp
qed

lemma raw_tail:
  assumes "represents v h xs" and "length xs \<le> i" and "i < capacity_m (data_m v)"
  shows "cell h (buffer_m (data_m v) + i) = Raw"
proof -
  from assms(1) have "\<forall>i<capacity_m (data_m v).
      cell h (buffer_m (data_m v) + i) = (if i < length xs then Live (xs ! i) else Raw)"
    unfolding represents_iff by blast
  with assms(3) have "cell h (buffer_m (data_m v) + i) = (if i < length xs then Live (xs ! i) else Raw)"
    by blast
  with assms(2) show ?thesis by simp
qed

lemma Vector_dtor_frame:
  assumes rep: "represents old h xs"
  shows "\<exists>h2. Vector_dtor old h = Normal () h2 \<and>
           (\<forall>v zs. represents v h zs \<longrightarrow>
              (buffer_m (data_m old) + capacity_m (data_m old) \<le> buffer_m (data_m v) \<or>
               buffer_m (data_m v) + capacity_m (data_m v) \<le> buffer_m (data_m old)) \<longrightarrow>
              represents v h2 zs)"
proof -
  define b where "b = buffer_m (data_m old)"
  define c where "c = capacity_m (data_m old)"
  define m where "m = length xs"
  define h1 where "h1 = h\<lparr>cells := (\<lambda>a. if b \<le> a \<and> a < b + m then Raw else cells h a)\<rparr>"
  define h2 where "h2 = (if b = 0 then h1
      else h1\<lparr>cells := (\<lambda>a. if b \<le> a \<and> a < b + c then release (cells h1 a) else cells h1 a),
               blocks := (blocks h1)(b := None)\<rparr>)"
  from rep have sz: "size_m old = m" and mc: "m \<le> c"
    and block: "if c = 0 then b = 0 else blocks h b = Some c"
    unfolding represents_iff b_def c_def m_def by blast+
  have live: "\<exists>w. cell h a = Live w" if "b \<le> a" "a < b + m" for a
  proof -
    from that have "a - b < length xs" by (simp add: m_def)
    from live_prefix [OF rep this] that(1) show ?thesis by (auto simp: b_def)
  qed
  have destroy: "destroy_n b m h = Normal () h1"
    unfolding h1_def by (rule destroy_n_Normal) (rule live)
  have dtor: "RawMemory_dtor (data_m old) h1 = Normal () h2"
  proof (cases "b = 0")
    case True
    then show ?thesis by (simp add: RawMemory_dtor_result h2_def b_def)
  next
    case False
    with block mc have "blocks h1 b = Some c"
      by (auto simp: h1_def split: if_splits)
    then show ?thesis
      using False by (simp add: RawMemory_dtor_result h2_def flip: b_def)
  qed
  have run: "Vector_dtor old h = Normal () h2"
    using destroy dtor by (simp add: Vector_dtor_def GetAddress_def sz flip: b_def)
  have outside: "cell h2 a = cell h a" if "\<not> (b \<le> a \<and> a < b + c)" for a
  proof -
    from that mc have "\<not> (b \<le> a \<and> a < b + m)" by auto
    with that show ?thesis by (cases "b = 0") (auto simp add: h2_def h1_def cell_def)
  qed
  have frame: "represents v h2 zs"
    if v: "represents v h zs"
      and disj: "b + c \<le> buffer_m (data_m v) \<or> buffer_m (data_m v) + capacity_m (data_m v) \<le> b"
    for v zs
  proof (rule represents_frame [OF v])
    fix i assume "i < capacity_m (data_m v)"
    with disj have "\<not> (b \<le> buffer_m (data_m v) + i \<and> buffer_m (data_m v) + i < b + c)"
      by auto
    then show "cell h2 (buffer_m (data_m v) + i) = cell h (buffer_m (data_m v) + i)"
      by (rule outside)
  next
    assume cv: "capacity_m (data_m v) \<noteq> 0"
    show "blocks h2 (buffer_m (data_m v)) = blocks h (buffer_m (data_m v))"
    proof (cases "b = 0")
      case True
      then show ?thesis by (simp add: h2_def h1_def)
    next
      case False
      with block have "c \<noteq> 0" by (auto split: if_splits)
      with disj cv have "buffer_m (data_m v) \<noteq> b" by auto
      then show ?thesis using False by (simp add: h2_def h1_def)
    qed
  next
    show "sizeof_T h2 = sizeof_T h" by (simp add: h2_def h1_def)
  qed
  show ?thesis
    using run frame unfolding b_def c_def by blast
qed

lemma RawMemory_dtor_frame:
  assumes block: "blocks h d = Some n" and dpos: "0 < d"
  shows "\<exists>h'. RawMemory_dtor \<lparr>buffer_m = d, capacity_m = n\<rparr> h = Normal () h' \<and>
           (\<forall>v zs. represents v h zs \<longrightarrow> buffer_m (data_m v) + capacity_m (data_m v) \<le> d \<longrightarrow>
              represents v h' zs)"
proof -
  define h' where "h' = h\<lparr>cells := (\<lambda>a. if d \<le> a \<and> a < d + n then release (cells h a) else cells h a),
               blocks := (blocks h)(d := None)\<rparr>"
  have dtor: "RawMemory_dtor \<lparr>buffer_m = d, capacity_m = n\<rparr> h = Normal () h'"
    using block dpos by (simp add: RawMemory_dtor_result h'_def)
  have frame: "represents v h' zs"
    if v: "represents v h zs" and disj: "buffer_m (data_m v) + capacity_m (data_m v) \<le> d" for v zs
  proof (rule represents_frame [OF v])
    fix i assume "i < capacity_m (data_m v)"
    with disj have "\<not> d \<le> buffer_m (data_m v) + i" by simp
    then show "cell h' (buffer_m (data_m v) + i) = cell h (buffer_m (data_m v) + i)"
      by (simp add: h'_def cell_def)
  next
    assume "capacity_m (data_m v) \<noteq> 0"
    with disj have "buffer_m (data_m v) \<noteq> d" by auto
    then show "blocks h' (buffer_m (data_m v)) = blocks h (buffer_m (data_m v))"
      by (simp add: h'_def)
  next
    show "sizeof_T h' = sizeof_T h" by (simp add: h'_def)
  qed
  show ?thesis using dtor frame by blast
qed

lemma represents_fits:
  assumes "represents v h xs"
  shows "0 < sizeof_T h" and "length xs * sizeof_T h < 2 ^ 64"
proof -
  from assms have s: "0 < sizeof_T h" and c: "capacity_m (data_m v) * sizeof_T h < 2 ^ 64"
    and l: "length xs \<le> capacity_m (data_m v)"
    unfolding represents_iff by blast+
  from l have "length xs * sizeof_T h \<le> capacity_m (data_m v) * sizeof_T h"
    by (rule mult_le_mono1)
  then show "length xs * sizeof_T h < 2 ^ 64" using c by (rule le_less_trans)
  show "0 < sizeof_T h" by (rule s)
qed

lemma Vector_copy_ctor_result:
  assumes rep: "represents other h ys" and pos: "0 < length ys"
  shows "if limit h < brk h + length ys then Vector_copy_ctor T other h = Throw bad_alloc h
         else if \<exists>y\<in>set ys. copy_ctor_throws T y
         then \<exists>h'. Vector_copy_ctor T other h = Throw element_exception h' \<and>
                (\<forall>v zs. represents v h zs \<longrightarrow> represents v h' zs)
         else \<exists>h'. Vector_copy_ctor T other h =
                  Normal \<lparr>data_m = \<lparr>buffer_m = brk h + 1, capacity_m = length ys\<rparr>, size_m = length ys\<rparr> h' \<and>
                represents \<lparr>data_m = \<lparr>buffer_m = brk h + 1, capacity_m = length ys\<rparr>, size_m = length ys\<rparr> h' ys \<and>
                (\<forall>v zs. represents v h zs \<longrightarrow> represents v h' zs)"
proof (cases "limit h < brk h + length ys")
  case True
  then show ?thesis
    using pos rep represents_fits [OF rep]
    by (simp add: Vector_copy_ctor_def RawMemory_ctor_pos represents_iff)
next
  case False
  define n where "n = length ys"
  define d where "d = brk h + 1"
  define nd where "nd = \<lparr>buffer_m = d, capacity_m = n\<rparr>"
  define h1 where "h1 = h\<lparr>cells := (\<lambda>a. if brk h + 1 \<le> a \<and> a < brk h + 1 + n then Raw else cells h a),
              blocks := (blocks h)(brk h + 1 \<mapsto> n), brk := brk h + n\<rparr>"
  define b where "b = buffer_m (data_m other)"
  have sz: "size_m other = n" using rep by (simp add: represents_iff n_def)
  have npos: "0 < n" using pos by (simp add: n_def)
  have alloc: "RawMemory_ctor n h = Normal nd h1"
    using False npos represents_fits [OF rep]
    by (simp add: RawMemory_ctor_pos nd_def h1_def d_def n_def)
  have after: "represents v h1 zs" if "represents v h zs" for v zs
    unfolding h1_def using that by (rule represents_after_alloc)
  have below: "buffer_m (data_m v) + capacity_m (data_m v) \<le> d" if "represents v h zs" for v zs
    unfolding d_def using that by (rule represents_below_break)
  have raw: "\<forall>i<n. cell h1 (d + i) = Raw" and blk: "blocks h1 d = Some n"
    unfolding h1_def d_def using alloc_facts [OF rep, of n] by blast+
  have src: "\<forall>i<n. cell h1 (b + i) = Live (ys ! i)"
    unfolding b_def n_def using live_prefix [OF after [OF rep]] by blast
  have "n \<le> capacity_m (data_m other)" using rep by (simp add: represents_iff n_def)
  with below [OF rep] have apart: "b + n \<le> d \<or> d + n \<le> b" by (simp add: b_def)
  define h2 where "h2 = h1\<lparr>cells := (\<lambda>a. if d \<le> a \<and> a < d + n then Live (ys ! (a - d)) else cells h1 a)\<rparr>"
  have copy: "uninitialized_copy_n T b n d h1 =
     (if \<exists>i<n. copy_ctor_throws T (ys ! i) then Throw element_exception h1 else Normal () h2)"
    unfolding h2_def by (rule uninitialized_copy_n_result [OF src raw apart])
  have thr_iff: "(\<exists>i<n. copy_ctor_throws T (ys ! i)) \<longleftrightarrow> (\<exists>y\<in>set ys. copy_ctor_throws T y)"
    unfolding n_def by (metis in_set_conv_nth)
  have unf: "Vector_copy_ctor T other h =
      and_then (try_catch (uninitialized_copy_n T b n d h1)
                  (\<lambda>e h2. and_then (RawMemory_dtor nd h2) (\<lambda>_. Throw e)))
        (\<lambda>_. Normal \<lparr>data_m = nd, size_m = n\<rparr>)"
    by (simp add: Vector_copy_ctor_def sz alloc GetAddress_def b_def nd_def)
  show ?thesis
  proof (cases "\<exists>y\<in>set ys. copy_ctor_throws T y")
    case True
    have "0 < d" by (simp add: d_def)
    from RawMemory_dtor_frame [OF blk this] obtain h' where
      dtor: "RawMemory_dtor nd h1 = Normal () h'"
      and fr: "\<forall>v zs. represents v h1 zs \<longrightarrow> buffer_m (data_m v) + capacity_m (data_m v) \<le> d \<longrightarrow>
                 represents v h' zs"
      unfolding nd_def by blast
    have yes: "\<exists>i<n. copy_ctor_throws T (ys ! i)" using True thr_iff by blast
    have "Vector_copy_ctor T other h = Throw element_exception h'"
      unfolding unf copy if_P [OF yes] by (simp add: dtor)
    moreover have "\<forall>v zs. represents v h zs \<longrightarrow> represents v h' zs"
      using fr after below by blast
    ultimately show ?thesis using True False by auto
  next
    case no: False
    have blocks2: "blocks h2 = blocks h1" by (simp add: h2_def)
    have new: "represents \<lparr>data_m = nd, size_m = n\<rparr> h2 ys"
      unfolding represents_iff using npos blk raw represents_fits [OF rep]
      by (simp add: nd_def blocks2 n_def [symmetric]) (simp add: h2_def h1_def d_def n_def)
    have keep: "represents v h2 zs" if v: "represents v h zs" for v zs
    proof (rule represents_frame [OF after [OF v]])
      fix i assume "i < capacity_m (data_m v)"
      with below [OF v] have "\<not> d \<le> buffer_m (data_m v) + i" by simp
      then show "cell h2 (buffer_m (data_m v) + i) = cell h1 (buffer_m (data_m v) + i)"
        by (simp add: h2_def cell_def)
    next
      show "blocks h2 (buffer_m (data_m v)) = blocks h1 (buffer_m (data_m v))"
        by (simp add: blocks2)
    next
      show "sizeof_T h2 = sizeof_T h1" by (simp add: h2_def)
    qed
    have no': "\<not> (\<exists>i<n. copy_ctor_throws T (ys ! i))" using no thr_iff by blast
    have "Vector_copy_ctor T other h = Normal \<lparr>data_m = nd, size_m = n\<rparr> h2"
      unfolding unf copy if_not_P [OF no'] by simp
    then show ?thesis
      using new keep no False unfolding nd_def d_def n_def by auto
  qed
qed


lemma block_in_store:
  assumes "represents v h xs" and "i < capacity_m (data_m v)"
  shows "0 < buffer_m (data_m v) + i \<and> buffer_m (data_m v) + i \<le> brk h"
proof (cases "i < length xs")
  case True
  from live_prefix [OF assms(1) True] show ?thesis by (auto dest: cell_LiveD)
next
  case False
  then have "length xs \<le> i" by simp
  from raw_tail [OF assms(1) this assms(2)] show ?thesis by (auto dest: cell_RawD)
qed

lemma CopyAssignNoRealloc_unfold:
  assumes "min (size_m this) (size_m rhs) \<le> capacity_m (data_m rhs)"
  shows "CopyAssignNoRealloc T this rhs h =
     (case and_then (copy_loop T (buffer_m (data_m rhs)) (min (size_m this) (size_m rhs)) (buffer_m (data_m this)) h)
             (\<lambda>_. if size_m this > size_m rhs
                   then destroy_n (buffer_m (data_m this) + size_m rhs) (size_m this - size_m rhs)
                   else uninitialized_copy_n T (buffer_m (data_m rhs) + size_m this)
                          (size_m rhs - size_m this) (buffer_m (data_m this) + size_m this)) of
        Normal _ h1 \<Rightarrow> Normal () (this\<lparr>size_m := size_m rhs\<rparr>, h1)
      | Throw e h1 \<Rightarrow> Throw e (this, h1)
      | Fault x \<Rightarrow> Fault x)"
  using assms
  by (simp add: CopyAssignNoRealloc_def Let_def RawMemory_plus_def std_copy_def GetAddress_def)

lemma CopyAssignNoRealloc_result:
  assumes repA: "represents this h xs" and repB: "represents rhs h ys"
    and apart: "buffer_m (data_m this) + capacity_m (data_m this) \<le> buffer_m (data_m rhs) \<or>
                buffer_m (data_m rhs) + capacity_m (data_m rhs) \<le> buffer_m (data_m this)"
    and fits: "length ys \<le> capacity_m (data_m this)"
  shows "if \<exists>y\<in>set (take (length xs) ys). copy_assign_throws T y then
           \<exists>h' k. k < length xs \<and> k < length ys \<and> copy_assign_throws T (ys ! k) \<and>
              (\<forall>i<k. \<not> copy_assign_throws T (ys ! i)) \<and>
              CopyAssignNoRealloc T this rhs h = Throw element_exception (this, h') \<and>
              represents this h' (take k ys @ drop k xs) \<and> represents rhs h' ys
         else if \<exists>y\<in>set (drop (length xs) ys). copy_ctor_throws T y then
           \<exists>h'. CopyAssignNoRealloc T this rhs h = Throw element_exception (this, h') \<and>
              represents this h' (take (length xs) ys) \<and> represents rhs h' ys
         else \<exists>h'. CopyAssignNoRealloc T this rhs h = Normal () (this\<lparr>size_m := length ys\<rparr>, h') \<and>
              represents (this\<lparr>size_m := length ys\<rparr>) h' ys \<and> represents rhs h' ys"
proof -
  define bA where "bA = buffer_m (data_m this)"
  define cA where "cA = capacity_m (data_m this)"
  define bB where "bB = buffer_m (data_m rhs)"
  define cB where "cB = capacity_m (data_m rhs)"
  define m where "m = length xs"
  define n where "n = length ys"
  define common where "common = min m n"
  define hk where "hk = (\<lambda>k. h\<lparr>cells := (\<lambda>a. if bA \<le> a \<and> a < bA + k then Live (ys ! (a - bA)) else cells h a)\<rparr>)"
  from repA have szA: "size_m this = m" and mA: "m \<le> cA"
    and blkA: "if cA = 0 then bA = 0 else blocks h bA = Some cA"
    and spos: "0 < sizeof_T h" and fitA: "cA * sizeof_T h < 2 ^ 64"
    unfolding represents_iff bA_def cA_def m_def by blast+
  from repB have szB: "size_m rhs = n" and nB: "n \<le> cB"
    unfolding represents_iff bB_def cB_def n_def by blast+
  have nA: "n \<le> cA" using fits by (simp add: n_def cA_def)
  have ap: "bA + cA \<le> bB \<or> bB + cB \<le> bA" using apart by (simp add: bA_def cA_def bB_def cB_def)
  have liveA: "cell h (bA + j) = Live (xs ! j)" if "j < m" for j
    using live_prefix [OF repA] that by (simp add: bA_def m_def)
  have rawA: "cell h (bA + j) = Raw" if "m \<le> j" "j < cA" for j
    using raw_tail [OF repA] that by (simp add: bA_def m_def cA_def)
  have inA: "0 < bA + j \<and> bA + j \<le> brk h" if "j < cA" for j
    using block_in_store [OF repA] that by (simp add: bA_def cA_def)
  have unf: "CopyAssignNoRealloc T this rhs h =
     (case and_then (copy_loop T bB common bA h)
             (\<lambda>_. if m > n then destroy_n (bA + n) (m - n)
                   else uninitialized_copy_n T (bB + m) (n - m) (bA + m)) of
        Normal _ h1 \<Rightarrow> Normal () (this\<lparr>size_m := n\<rparr>, h1)
      | Throw e h1 \<Rightarrow> Throw e (this, h1)
      | Fault x \<Rightarrow> Fault x)"
  proof -
    have "min (size_m this) (size_m rhs) \<le> capacity_m (data_m rhs)"
      using nB by (simp add: szA szB cB_def)
    from CopyAssignNoRealloc_unfold [OF this] show ?thesis
      unfolding szA szB bA_def [symmetric] bB_def [symmetric] common_def [symmetric] .
  qed
  have cellk: "cell (hk k) a = (if bA \<le> a \<and> a < bA + k then Live (ys ! (a - bA)) else cell h a)"
    if "0 < a \<and> a \<le> brk h" for k a
    using that by (simp add: hk_def cell_def)
  have cellk_out: "cell (hk k) a = cell h a" if "\<not> (bA \<le> a \<and> a < bA + k)" for k a
    using that by (auto simp add: hk_def cell_def)
  have blocksk: "blocks (hk k) = blocks h" for k by (simp add: hk_def)
  have brkk: "brk (hk k) = brk h" for k by (simp add: hk_def)
  have sizek: "sizeof_T (hk k) = sizeof_T h" for k by (simp add: hk_def)
  have repBk: "represents rhs (hk k) ys" if "k \<le> cA" for k
  proof (rule represents_frame [OF repB])
    fix i assume i: "i < capacity_m (data_m rhs)"
    then have "\<not> (bA \<le> bB + i \<and> bB + i < bA + k)" using ap that by (auto simp: cB_def)
    then show "cell (hk k) (buffer_m (data_m rhs) + i) = cell h (buffer_m (data_m rhs) + i)"
      unfolding bB_def [symmetric] by (rule cellk_out)
  next
    show "blocks (hk k) (buffer_m (data_m rhs)) = blocks h (buffer_m (data_m rhs))"
      by (simp add: blocksk)
  next
    show "sizeof_T (hk k) = sizeof_T h" by (simp add: hk_def)
  qed
  have cellAk: "cell (hk k) (bA + j) = (if j < k then Live (ys ! j) else cell h (bA + j))"
    if "j < cA" for k j
    using cellk [OF inA [OF that], of k] by simp
  have repAk: "represents this (hk k) (take k ys @ drop k xs)" if "k \<le> m" "k \<le> n" for k
  proof -
    have len: "length (take k ys @ drop k xs) = m" using that by (simp add: m_def n_def)
    have "cell (hk k) (bA + j) =
        (if j < m then Live ((take k ys @ drop k xs) ! j) else Raw)" if j: "j < cA" for j
    proof -
      consider "j < k" | "k \<le> j" "j < m" | "m \<le> j" by linarith
      then show ?thesis
      proof cases
        case 1
        then show ?thesis using that \<open>k \<le> m\<close> \<open>k \<le> n\<close>
          by (simp add: cellAk [OF j] nth_append n_def)
      next
        case 2
        then have "(take k ys @ drop k xs) ! j = xs ! j"
          using \<open>k \<le> n\<close> by (simp add: nth_append n_def m_def)
        then show ?thesis using 2 by (simp add: cellAk [OF j] liveA)
      next
        case 3
        then show ?thesis using \<open>k \<le> m\<close> j by (simp add: cellAk [OF j] rawA)
      qed
    qed
    then show ?thesis
      unfolding represents_iff len
      using szA mA blkA spos fitA by (simp add: blocksk sizek flip: bA_def cA_def)
  qed
  have src: "\<forall>i<common. cell h (bB + i) = Live (ys ! i)"
    using live_prefix [OF repB] by (simp add: bB_def common_def n_def)
  have dst: "\<forall>i<common. \<exists>w. cell h (bA + i) = Live w"
    using liveA by (simp add: common_def)
  have sep: "bB + common \<le> bA \<or> bA + common \<le> bB"
    using ap mA nB by (auto simp: common_def)
  have thr1: "(\<exists>i<common. copy_assign_throws T (ys ! i)) \<longleftrightarrow>
      (\<exists>y\<in>set (take (length xs) ys). copy_assign_throws T y)"
  proof -
    have "length (take (length xs) ys) = common" by (simp add: common_def m_def n_def min.commute)
    moreover have "\<And>i. i < common \<Longrightarrow> take (length xs) ys ! i = ys ! i"
      by (simp add: common_def m_def)
    ultimately show ?thesis by (metis in_set_conv_nth)
  qed
  have thr2: "(\<exists>i<n - m. copy_ctor_throws T (ys ! (m + i))) \<longleftrightarrow>
      (\<exists>y\<in>set (drop (length xs) ys). copy_ctor_throws T y)"
  proof -
    have "length (drop (length xs) ys) = n - m" by (simp add: m_def n_def)
    moreover have "\<And>i. i < n - m \<Longrightarrow> drop (length xs) ys ! i = ys ! (m + i)"
      by (simp add: m_def n_def)
    ultimately show ?thesis by (metis in_set_conv_nth)
  qed
  from copy_loop_result [OF src dst sep, of T] show ?thesis
  proof (elim disjE)
    assume "\<exists>k<common. copy_assign_throws T (ys ! k) \<and> (\<forall>i<k. \<not> copy_assign_throws T (ys ! i)) \<and>
          copy_loop T bB common bA h =
            Throw element_exception
              (h\<lparr>cells := (\<lambda>a. if bA \<le> a \<and> a < bA + k then Live (ys ! (a - bA)) else cells h a)\<rparr>)"
    then obtain k where k: "k < common" and t: "copy_assign_throws T (ys ! k)"
      and before: "\<forall>i<k. \<not> copy_assign_throws T (ys ! i)"
      and r: "copy_loop T bB common bA h = Throw element_exception (hk k)"
      unfolding hk_def by blast
    have km: "k < m" and kn: "k < n" using k by (simp_all add: common_def)
    have "CopyAssignNoRealloc T this rhs h = Throw element_exception (this, hk k)"
      unfolding unf r by simp
    moreover have "represents this (hk k) (take k ys @ drop k xs)"
      using km kn by (intro repAk) simp_all
    moreover have "represents rhs (hk k) ys" using km mA by (intro repBk) simp
    moreover have "\<exists>y\<in>set (take (length xs) ys). copy_assign_throws T y"
      using k t thr1 by blast
    ultimately show ?thesis
      using km kn t before unfolding m_def n_def by auto
  next
    assume "\<not> (\<exists>i<common. copy_assign_throws T (ys ! i)) \<and>
          copy_loop T bB common bA h =
            Normal () (h\<lparr>cells := (\<lambda>a. if bA \<le> a \<and> a < bA + common then Live (ys ! (a - bA)) else cells h a)\<rparr>)"
    then have no1: "\<not> (\<exists>y\<in>set (take (length xs) ys). copy_assign_throws T y)"
      and r: "copy_loop T bB common bA h = Normal () (hk common)"
      unfolding hk_def thr1 by blast+
    define h1 where "h1 = hk common"
    have cm: "common \<le> m" and cn: "common \<le> n" by (simp_all add: common_def)
    have repA1: "represents this h1 (take common ys @ drop common xs)"
      unfolding h1_def using cm cn by (rule repAk)
    have repB1: "represents rhs h1 ys"
      unfolding h1_def using cm mA by (intro repBk) simp
    have cellA1: "cell h1 (bA + j) = (if j < common then Live (ys ! j) else cell h (bA + j))"
      if "j < cA" for j
      unfolding h1_def using that by (rule cellAk)
    have unf1: "CopyAssignNoRealloc T this rhs h =
       (case (if m > n then destroy_n (bA + n) (m - n) h1
              else uninitialized_copy_n T (bB + m) (n - m) (bA + m) h1) of
          Normal _ h2 \<Rightarrow> Normal () (this\<lparr>size_m := n\<rparr>, h2)
        | Throw e h2 \<Rightarrow> Throw e (this, h2)
        | Fault x \<Rightarrow> Fault x)"
      unfolding unf r h1_def by simp
    show ?thesis
    proof (cases "n < m")
      case True
      then have common: "common = n" by (simp add: common_def)
      define h2 where "h2 = h1\<lparr>cells := (\<lambda>a. if bA + n \<le> a \<and> a < bA + n + (m - n) then Raw else cells h1 a)\<rparr>"
      have "\<exists>v. cell h1 a = Live v" if "bA + n \<le> a" "a < bA + n + (m - n)" for a
      proof -
        define j where "j = a - bA"
        have a: "a = bA + j" and j: "n \<le> j" "j < m" using that True by (simp_all add: j_def)
        then have "j < cA" using mA by simp
        from cellA1 [OF this] j show ?thesis by (simp add: a common liveA)
      qed
      then have d: "destroy_n (bA + n) (m - n) h1 = Normal () h2"
        unfolding h2_def by (rule destroy_n_Normal)
      have res: "CopyAssignNoRealloc T this rhs h = Normal () (this\<lparr>size_m := n\<rparr>, h2)"
        unfolding unf1 using True by (simp add: d)
      have brk1: "brk h1 = brk h" and blocks2: "blocks h2 = blocks h1" and size2: "sizeof_T h2 = sizeof_T h"
        by (simp_all add: h1_def h2_def brkk sizek)
      have cell2: "cell h2 a = (if bA + n \<le> a \<and> a < bA + n + (m - n) then Raw else cell h1 a)"
        if "0 < a \<and> a \<le> brk h" for a
        using that by (simp add: h2_def cell_def brk1)
      have cell2_out: "cell h2 a = cell h1 a" if "\<not> (bA + n \<le> a \<and> a < bA + n + (m - n))" for a
        using that by (auto simp add: h2_def cell_def)
      have repB2: "represents rhs h2 ys"
      proof (rule represents_frame [OF repB1])
        fix i assume i: "i < capacity_m (data_m rhs)"
        then have "\<not> (bA + n \<le> bB + i \<and> bB + i < bA + n + (m - n))"
          using ap mA True by (auto simp: cB_def)
        then show "cell h2 (buffer_m (data_m rhs) + i) = cell h1 (buffer_m (data_m rhs) + i)"
          unfolding bB_def [symmetric] by (rule cell2_out)
      next
        show "blocks h2 (buffer_m (data_m rhs)) = blocks h1 (buffer_m (data_m rhs))"
          by (simp add: blocks2)
      next
        show "sizeof_T h2 = sizeof_T h1" by (simp add: h2_def)
      qed
      have "cell h2 (bA + j) = (if j < n then Live (ys ! j) else Raw)" if j: "j < cA" for j
      proof -
        consider "j < n" | "n \<le> j" "j < m" | "m \<le> j" by linarith
        then show ?thesis
        proof cases
          case 1
          then show ?thesis by (simp add: cell2 [OF inA [OF j]] cellA1 [OF j] common)
        next
          case 2
          then show ?thesis by (simp add: cell2 [OF inA [OF j]])
        next
          case 3
          then have "\<not> j < n" "\<not> bA + j < bA + n + (m - n)" using True by simp_all
          then show ?thesis using 3 j by (simp add: cell2 [OF inA [OF j]] cellA1 [OF j] common rawA)
        qed
      qed
      then have "represents (this\<lparr>size_m := n\<rparr>) h2 ys"
        unfolding represents_iff
        using nA blkA spos fitA by (simp add: blocks2 size2 h1_def blocksk n_def flip: bA_def cA_def)
      moreover have "\<not> (\<exists>y\<in>set (drop (length xs) ys). copy_ctor_throws T y)"
        using True by (simp add: m_def n_def)
      ultimately show ?thesis
        using res repB2 no1 unfolding n_def by auto
    next
      case False
      then have common: "common = m" and mn: "m \<le> n" by (simp_all add: common_def)
      have all: "take common ys @ drop common xs = take m ys" by (simp add: common m_def)
      define g where "g = (\<lambda>i. ys ! (m + i))"
      have src2: "\<forall>i<n - m. cell h1 (bB + m + i) = Live (g i)"
      proof (intro allI impI)
        fix i assume "i < n - m"
        then have "m + i < length ys" by (simp add: n_def)
        from live_prefix [OF repB1 this] show "cell h1 (bB + m + i) = Live (g i)"
          by (simp add: bB_def g_def add.assoc)
      qed
      have dst2: "\<forall>i<n - m. cell h1 (bA + m + i) = Raw"
      proof (intro allI impI)
        fix i assume "i < n - m"
        then have j: "m + i < cA" using nA by simp
        have "cell h1 (bA + (m + i)) = Raw"
          by (simp add: cellA1 [OF j] common rawA [OF _ j])
        then show "cell h1 (bA + m + i) = Raw" by (simp add: add.assoc)
      qed
      have sep2: "bB + m + (n - m) \<le> bA + m \<or> bA + m + (n - m) \<le> bB + m"
        using ap mn nA nB by auto
      define h2 where "h2 = h1\<lparr>cells := (\<lambda>a. if bA + m \<le> a \<and> a < bA + m + (n - m) then Live (g (a - (bA + m))) else cells h1 a)\<rparr>"
      have copy: "uninitialized_copy_n T (bB + m) (n - m) (bA + m) h1 =
         (if \<exists>i<n - m. copy_ctor_throws T (g i) then Throw element_exception h1 else Normal () h2)"
        unfolding h2_def by (rule uninitialized_copy_n_result [OF src2 dst2 sep2])
      show ?thesis
      proof (cases "\<exists>y\<in>set (drop (length xs) ys). copy_ctor_throws T y")
        case True
        then have yes: "\<exists>i<n - m. copy_ctor_throws T (g i)" unfolding g_def thr2 .
        have "CopyAssignNoRealloc T this rhs h = Throw element_exception (this, h1)"
          unfolding unf1 copy if_P [OF yes] using False by simp
        moreover have "represents this h1 (take (length xs) ys)"
          using repA1 unfolding all m_def .
        ultimately show ?thesis using True no1 repB1 by auto
      next
        case no2: False
        then have no: "\<not> (\<exists>i<n - m. copy_ctor_throws T (g i))" unfolding g_def thr2 .
        have res: "CopyAssignNoRealloc T this rhs h = Normal () (this\<lparr>size_m := n\<rparr>, h2)"
          unfolding unf1 copy if_not_P [OF no] using False by simp
        have brk1: "brk h1 = brk h" and blocks2: "blocks h2 = blocks h1" and size2: "sizeof_T h2 = sizeof_T h"
          by (simp_all add: h1_def h2_def brkk sizek)
        have cell2: "cell h2 a = (if bA + m \<le> a \<and> a < bA + m + (n - m) then Live (g (a - (bA + m))) else cell h1 a)"
          if "0 < a \<and> a \<le> brk h" for a
          using that by (simp add: h2_def cell_def brk1)
        have cell2_out: "cell h2 a = cell h1 a" if "\<not> (bA + m \<le> a \<and> a < bA + m + (n - m))" for a
          using that by (auto simp add: h2_def cell_def)
        have repB2: "represents rhs h2 ys"
        proof (rule represents_frame [OF repB1])
          fix i assume i: "i < capacity_m (data_m rhs)"
          then have "\<not> (bA + m \<le> bB + i \<and> bB + i < bA + m + (n - m))"
            using ap mn nA by (auto simp: cB_def)
          then show "cell h2 (buffer_m (data_m rhs) + i) = cell h1 (buffer_m (data_m rhs) + i)"
            unfolding bB_def [symmetric] by (rule cell2_out)
        next
          show "blocks h2 (buffer_m (data_m rhs)) = blocks h1 (buffer_m (data_m rhs))"
            by (simp add: blocks2)
        next
          show "sizeof_T h2 = sizeof_T h1" by (simp add: h2_def)
        qed
        have "cell h2 (bA + j) = (if j < n then Live (ys ! j) else Raw)" if j: "j < cA" for j
        proof -
          consider "j < m" | "m \<le> j" "j < n" | "n \<le> j" by linarith
          then show ?thesis
          proof cases
            case 1
            then show ?thesis using mn by (simp add: cell2 [OF inA [OF j]] cellA1 [OF j] common)
          next
            case 2
            then have "bA + m \<le> bA + j" "bA + j < bA + m + (n - m)" "bA + j - (bA + m) = j - m"
              by simp_all
            then show ?thesis using 2 by (simp add: cell2 [OF inA [OF j]] g_def)
          next
            case 3
            then have "\<not> j < n" "\<not> bA + j < bA + m + (n - m)" "m \<le> j" using mn by simp_all
            then show ?thesis using j by (simp add: cell2 [OF inA [OF j]] cellA1 [OF j] common rawA)
          qed
        qed
        then have "represents (this\<lparr>size_m := n\<rparr>) h2 ys"
          unfolding represents_iff
          using nA blkA spos fitA by (simp add: blocks2 size2 h1_def blocksk n_def flip: bA_def cA_def)
        then show ?thesis
          using res repB2 no1 no2 unfolding n_def by auto
      qed
    qed
  qed
qed


lemma Vector_copy_assign_unfold:
  assumes "this \<noteq> rhs"
  shows "Vector_copy_assign T this rhs objs h =
     (if Capacity (objs this) < size_m (objs rhs) then
        (case Vector_copy_ctor T (objs rhs) h of
           Normal tmp h1 \<Rightarrow> on_object (objs(this := tmp)) (Vector_dtor (objs this) h1)
         | Throw e h1 \<Rightarrow> Throw e (objs, h1)
         | Fault x \<Rightarrow> Fault x)
      else
        (case CopyAssignNoRealloc T (objs this) (objs rhs) h of
           Normal r s \<Rightarrow> Normal r (objs(this := fst s), snd s)
         | Throw e s \<Rightarrow> Throw e (objs(this := fst s), snd s)
         | Fault x \<Rightarrow> Fault x))"
  using assms by (simp add: Vector_copy_assign_def Capacity_def cong: outcome.case_cong)

lemma represents_three_cells:
  "represents full2 (three_cells a b c) [a, b]" "represents single3 (three_cells a b c) [c]"
  by (simp_all add: represents_def full2_def single3_def three_cells_def cell_def upt_rec)

lemma fixture_simps3:
  "two_arrays 10 = full2" "two_arrays 20 = single3"
  "Capacity single3 = 1" "data_m single3 = \<lparr>buffer_m = 3, capacity_m = 1\<rparr>"
  "brk (three_cells a b c) = 3" "limit (three_cells a b c) = 100"
  "sizeof_T (three_cells a b c) = 4"
  by (simp_all add: two_arrays_def Capacity_def RawMemory_Capacity_def single3_def three_cells_def)

section \<open>Arguments that refer to objects in the store\<close>

text \<open>
  The construction of an element from a forwarded argument either fails, leaving the
  store as it is, or returns the value of the new element; the store then differs at most
  in the object an rvalue reference designates, and an array in it holds
  \<open>after_forward\<close> of its elements.
\<close>

lemma construct_from_Throw:
  "construct_from T args h = Throw e g \<Longrightarrow> e = element_exception \<and> g = h"
  by (auto simp add: construct_from_def split: forwarded.splits cell.splits option.splits if_splits)

lemma construct_from_Normal:
  "construct_from T args h = Normal v g \<Longrightarrow>
   (g = h \<and> (\<forall>a. args \<noteq> RvalueRef a)) \<or>
   (\<exists>a. args = RvalueRef a \<and> cell h a = Live v \<and>
        g = h\<lparr>cells := (cells h)(a := Live (moved_from T v))\<rparr>)"
  by (auto simp add: construct_from_def split: forwarded.splits cell.splits option.splits if_splits)

lemma length_after_forward [simp]: "length (after_forward T args this xs) = length xs"
  by (simp add: after_forward_def split: forwarded.splits)

lemma construct_from_represents:
  assumes rep: "represents this h xs" and cf: "construct_from T args h = Normal v g"
  shows "represents this g (after_forward T args this xs)"
    and "blocks g = blocks h" and "brk g = brk h" and "limit g = limit h" and "sizeof_T g = sizeof_T h"
proof -
  define b where "b = buffer_m (data_m this)"
  define m where "m = length xs"
  have beg: "Vector_begin this = b" by (simp add: Vector_begin_def GetAddress_def b_def)
  have sz: "size_m this = m" using rep by (simp add: represents_iff m_def)
  have en: "Vector_end this = b + m" by (simp add: Vector_end_def GetAddress_def b_def sz)
  from construct_from_Normal [OF cf]
  show "blocks g = blocks h" "brk g = brk h" "limit g = limit h" "sizeof_T g = sizeof_T h"
    by auto
  from construct_from_Normal [OF cf]
  show "represents this g (after_forward T args this xs)"
  proof (elim disjE conjE exE)
    assume "g = h" "\<forall>a. args \<noteq> RvalueRef a"
    then show ?thesis using rep by (cases args) (simp_all add: after_forward_def)
  next
    fix a assume args: "args = RvalueRef a" and live: "cell h a = Live v"
      and g: "g = h\<lparr>cells := (cells h)(a := Live (moved_from T v))\<rparr>"
    have ain: "0 < a \<and> a \<le> brk h" using cell_LiveD [OF live] by simp
    have cellg: "cell g x = (if x = a then Live (moved_from T v) else cell h x)" for x
      using ain by (simp add: g cell_def)
    show ?thesis
    proof (cases "b \<le> a \<and> a < b + m")
      case True
      define j where "j = a - b"
      from True have j: "j < m" and a: "a = b + j" unfolding j_def by auto
      have "cell h (b + j) = Live (xs ! j)"
        using live_prefix [OF rep, of j] j by (simp add: b_def m_def)
      with live have v: "v = xs ! j" by (simp add: a)
      have af: "after_forward T args this xs = xs[j := moved_from T (xs ! j)]"
        using True by (simp add: after_forward_def args beg en j_def)
      have "cell g (buffer_m (data_m this) + i) =
          (if i < length (xs[j := moved_from T (xs ! j)])
           then Live (xs[j := moved_from T (xs ! j)] ! i) else Raw)"
        if i: "i < capacity_m (data_m this)" for i
      proof (cases "i < m")
        case True
        then have "cell h (b + i) = Live (xs ! i)"
          using live_prefix [OF rep, of i] by (simp add: b_def m_def)
        then show ?thesis using True j
          by (simp add: cellg a v m_def nth_list_update flip: b_def)
      next
        case False
        then have "cell h (b + i) = Raw"
          using raw_tail [OF rep, of i] i by (simp add: b_def m_def)
        moreover have "b + i \<noteq> a" using False j by (simp add: a)
        ultimately show ?thesis using False by (simp add: cellg m_def flip: b_def)
      qed
      then show ?thesis
        unfolding af represents_iff using rep
        by (simp add: represents_iff g)
    next
      case False
      have "represents this g xs"
      proof (rule represents_frame [OF rep])
        fix i assume i: "i < capacity_m (data_m this)"
        have "b + i \<noteq> a"
        proof
          assume eq: "b + i = a"
          with False have "m \<le> i" by simp
          from raw_tail [OF rep, of i] this i have "cell h (b + i) = Raw" by (simp add: b_def m_def)
          with live eq show False by simp
        qed
        then show "cell g (buffer_m (data_m this) + i) = cell h (buffer_m (data_m this) + i)"
          by (simp add: cellg flip: b_def)
      next
        show "blocks g (buffer_m (data_m this)) = blocks h (buffer_m (data_m this))" by (simp add: g)
      next
        show "sizeof_T g = sizeof_T h" by (simp add: g)
      qed
      moreover have "after_forward T args this xs = xs"
        using False by (auto simp add: after_forward_def args beg en)
      ultimately show ?thesis by simp
    qed
  qed
qed

lemma not_Live_case:
  assumes "\<And>v. c \<noteq> Live v"
  shows "(case c of Live v \<Rightarrow> f v | _ \<Rightarrow> z) = z"
proof (cases c)
  case (Live x)
  with assms [of x] show ?thesis by contradiction
qed simp_all

lemma construct_from_after_alloc:
  "construct_from T args
     (h\<lparr>cells := (\<lambda>a. if brk h + 1 \<le> a \<and> a < brk h + 1 + n then Raw else cells h a),
        blocks := (blocks h)(brk h + 1 \<mapsto> n), brk := brk h + n\<rparr>) =
   (case construct_from T args h of
      Normal v g \<Rightarrow>
        Normal v (g\<lparr>cells := (\<lambda>a. if brk g + 1 \<le> a \<and> a < brk g + 1 + n then Raw else cells g a),
                    blocks := (blocks g)(brk g + 1 \<mapsto> n), brk := brk g + n\<rparr>)
    | Throw e g \<Rightarrow>
        Throw e (h\<lparr>cells := (\<lambda>a. if brk h + 1 \<le> a \<and> a < brk h + 1 + n then Raw else cells h a),
                   blocks := (blocks h)(brk h + 1 \<mapsto> n), brk := brk h + n\<rparr>)
    | Fault x \<Rightarrow> Fault x)"
proof -
  let ?h1 = "h\<lparr>cells := (\<lambda>a. if brk h + 1 \<le> a \<and> a < brk h + 1 + n then Raw else cells h a),
        blocks := (blocks h)(brk h + 1 \<mapsto> n), brk := brk h + n\<rparr>"
  have live: "cell ?h1 a = Live v \<longleftrightarrow> cell h a = Live v" for a v
    by (auto simp add: cell_def)
  have same: "cell ?h1 a = Live v" if "cell h a = Live v" for a v
    using that live by blast
  have other: "cell ?h1 a \<noteq> Live v" if "\<And>v. cell h a \<noteq> Live v" for a v
    using that [of v] live [of a v] by simp
  show ?thesis
  proof (cases args)
    case (ConstRef a)
    show ?thesis
    proof (cases "\<exists>v. cell h a = Live v")
      case True
      then obtain v where v: "cell h a = Live v" ..
      then show ?thesis using same [OF v] by (simp add: construct_from_def ConstRef)
    next
      case False
      then have no: "\<And>v. cell h a \<noteq> Live v" by blast
      then have "construct_from T args h = Fault undefined_behaviour"
        unfolding construct_from_def ConstRef forwarded.case by (rule not_Live_case)
      moreover have "construct_from T args ?h1 = Fault undefined_behaviour"
        unfolding construct_from_def ConstRef forwarded.case
        by (rule not_Live_case) (rule other [OF no])
      ultimately show ?thesis by simp
    qed
  next
    case (RvalueRef a)
    show ?thesis
    proof (cases "\<exists>v. cell h a = Live v")
      case True
      then obtain v where v: "cell h a = Live v" ..
      from cell_LiveD [OF v] have "a \<le> brk h" by simp
      define g where "g = h\<lparr>cells := (cells h)(a := Live (moved_from T v))\<rparr>"
      from \<open>a \<le> brk h\<close> have eq: "?h1\<lparr>cells := (cells ?h1)(a := Live (moved_from T v))\<rparr> =
          g\<lparr>cells := (\<lambda>a. if brk g + 1 \<le> a \<and> a < brk g + 1 + n then Raw else cells g a),
            blocks := (blocks g)(brk g + 1 \<mapsto> n), brk := brk g + n\<rparr>"
        by (intro heap.equality) (auto simp add: g_def fun_eq_iff)
      have "construct_from T args ?h1 =
          (if move_throws T v then Throw element_exception ?h1
           else Normal v (?h1\<lparr>cells := (cells ?h1)(a := Live (moved_from T v))\<rparr>))"
        unfolding construct_from_def RvalueRef forwarded.case same [OF v] cell.case ..
      moreover have "construct_from T args h =
          (if move_throws T v then Throw element_exception h else Normal v g)"
        unfolding construct_from_def RvalueRef forwarded.case v cell.case g_def ..
      ultimately show ?thesis unfolding eq by simp
    next
      case False
      then have no: "\<And>v. cell h a \<noteq> Live v" by blast
      then have "construct_from T args h = Fault undefined_behaviour"
        unfolding construct_from_def RvalueRef forwarded.case by (rule not_Live_case)
      moreover have "construct_from T args ?h1 = Fault undefined_behaviour"
        unfolding construct_from_def RvalueRef forwarded.case
        by (rule not_Live_case) (rule other [OF no])
      ultimately show ?thesis by simp
    qed
  next
    case (CtorArgs r)
    then show ?thesis by (cases r) (simp_all add: construct_from_def)
  qed
qed

lemma after_forward_simps [simp]:
  "after_forward T (ConstRef a) this xs = xs"
  "after_forward T (CtorArgs r) this xs = xs"
  by (simp_all add: after_forward_def)

lemma fixture_simps4:
  "is_nothrow_move_constructible String = True" "move_throws String v = False"
  "moved_from String v = 0"
  by (simp_all add: String_def move_throws_def)

lemma EmplaceBack_full_Fault:
  assumes "size_m this = Capacity this"
    and "RawMemory_ctor (if size_m this = 0 then 1 else (size_m this * 2) mod 2 ^ 64) h = Normal nd h1"
    and "size_m this \<le> capacity_m nd"
    and "construct_args T (buffer_m nd + size_m this) args h1 = Fault x"
  shows "EmplaceBack T args this h = Fault x"
  using EmplaceBack_full_unfold [OF assms(1,2,3) refl, of T args] assms(4)
  by simp

lemma EmplaceBack_full_Normal:
  assumes "size_m this = Capacity this"
    and "RawMemory_ctor (if size_m this = 0 then 1 else (size_m this * 2) mod 2 ^ 64) h = Normal nd h1"
    and "size_m this < capacity_m nd"
    and "and_then (construct_args T (buffer_m nd + size_m this) args h1)
               (\<lambda>_ h2. try_catch
                  (if is_nothrow_move_constructible T \<or> \<not> is_copy_constructible T then
                     uninitialized_move_n T (buffer_m (data_m this)) (size_m this) (buffer_m nd) h2
                   else
                     uninitialized_copy_n T (buffer_m (data_m this)) (size_m this) (buffer_m nd) h2)
                  (\<lambda>e h3. and_then (destroy_at (buffer_m nd + size_m this) h3) (\<lambda>_. Throw e)))
           = Normal u h3"
    and "Vector_dtor this h3 = Normal () h5"
  shows "EmplaceBack T args this h =
           Normal (buffer_m nd + size_m this) (\<lparr>data_m = nd, size_m = size_m this + 1\<rparr>, h5)"
proof -
  from assms(5) obtain h4 where d: "destroy_n (buffer_m (data_m this)) (size_m this) h3 = Normal () h4"
    and r: "RawMemory_dtor (data_m this) h4 = Normal () h5"
    by (auto simp add: Vector_dtor_def GetAddress_def and_then_eq_Normal)
  have le: "size_m this \<le> capacity_m nd" using assms(3) by simp
  show ?thesis
    using EmplaceBack_full_unfold [OF assms(1,2) le refl, of T args] assms(3,4) d r
    by (simp add: RawMemory_at_def Vector_rebuild)
qed

text \<open>
  An argument may refer to an element of the array itself. \<^verbatim>\<open>Insert(begin() + 1, v[0])\<close>
  on the full array \<open>[7, 8]\<close> moves the first element to the new block before it
  constructs the new element from the reference: what is inserted is the moved-from value.
\<close>

lemma Insert_own_element:
  "\<exists>h'. Insert_copy Obj 2 1 full2 (two_cells 7 8) =
       Normal 4 (\<lparr>data_m = \<lparr>buffer_m = 3, capacity_m = 4\<rparr>, size_m = 3\<rparr>, h') \<and>
     map (cell h') [3, 4, 5, 6] = [Live 7, Live 0, Live 8, Raw]"
  unfolding Insert_copy_def Emplace_def full2_def two_cells_def Obj_def
  by (simp add: object_defs store_defs RawMemory_defs Vector_defs Let_def loop_steps)

section \<open>Emplace on a full array: the exception path\<close>

text \<open>
  Claim C1. For Emplace/Insert on a full array, if an exception is thrown while the prefix
  is moved, the new element constructed or the suffix moved into the new block, then every
  element already constructed in the new block is destroyed, the exception is rethrown and
  the original array (length, capacity, contents) is completely unchanged.

  The code does not do this. Evaluated on the full array \<open>[7, 8]\<close> and an insertion at
  index 1 (address 2):
  \<^item> with \<open>String\<close> elements and a constructor of the new element that throws, the
    exception is rethrown, but the prefix has been moved out already: the array's first
    element is left moved-from (0 instead of 7);
  \<^item> on \<open>[7, 13]\<close> with \<open>Obj\<close> elements, where moving the suffix element 13 throws,
    the handler destroys the \<open>index\<close> prefix cells only: the new element 9, constructed
    at address 4 of the new block, is never destroyed and its storage is released under it;
  \<^item> on \<open>[13, 8]\<close>, where moving the prefix throws, \<^verbatim>\<open>uninitialized_move_n\<close> has
    destroyed what it built, and the handler destroys the same cells again.
\<close>

theorem Emplace_realloc_exception_damage:
  "(\<exists>h'. Emplace String 2 (CtorArgs None) full2 (two_cells 7 8) = Throw element_exception (full2, h')
        \<and> cell h' 1 = Live 0 \<and> cell h' 2 = Live 8) \<and>
   (\<exists>h'. Emplace Obj 2 (CtorArgs (Some 9)) full2 (two_cells 7 13) = Throw element_exception (full2, h')
        \<and> cell h' 1 = Live 0 \<and> cell h' 2 = Live 13 \<and> cell h' 4 = Leaked 9) \<and>
   Emplace Obj 2 (CtorArgs (Some 9)) full2 (two_cells 13 8) = Fault undefined_behaviour"
  unfolding Emplace_def full2_def two_cells_def String_def Obj_def
  by (simp add: object_defs store_defs RawMemory_defs Vector_defs Let_def loop_steps)

section \<open>Emplace on an empty array\<close>

text \<open>
  Claim C3. For an empty array, Emplace/Insert with position equal to begin satisfies the
  operation's precondition, constructs the new element directly at that position,
  increments the length to 1 and returns an iterator to the inserted element.

  In the code the asserted precondition is \<^verbatim>\<open>pos >= begin() && pos < end()\<close>. On an
  empty array \<^verbatim>\<open>begin() == end()\<close>, so no position satisfies it: every call of Emplace
  on an empty array, whatever its capacity and whatever the position, fails the assertion.
  The branches of Emplace written for the empty array are unreachable behind it.
\<close>

theorem Emplace_empty_fails_assertion:
  "Emplace T pos args (this\<lparr>size_m := 0\<rparr>) h = Fault assertion_failed"
  by (simp add: Emplace_def Vector_begin_def Vector_end_def)

section \<open>RawMemory: move construction and move assignment\<close>

text \<open>
  Claim C9. RawMemory move construction and move assignment both transfer ownership of
  the block to the destination and leave the source with a null address and zero capacity,
  never copying the underlying bytes.

  Move assignment is a swap: the source ends up with the block the destination owned.
  With a destination that owns the block at address 1 (capacity 3) and a source that owns
  the block at address 5 (capacity 2), the source is left with address 1 and capacity 3.
\<close>

theorem RawMemory_move_assign_source_not_null:
  "RawMemory_move_assign 0 1
      ((\<lambda>_. RawMemory_default)(0 := \<lparr>buffer_m = 1, capacity_m = 3\<rparr>, 1 := \<lparr>buffer_m = 5, capacity_m = 2\<rparr>)) 1
     = \<lparr>buffer_m = 1, capacity_m = 3\<rparr> \<and>
   \<not> (buffer_m (RawMemory_move_assign 0 1
      ((\<lambda>_. RawMemory_default)(0 := \<lparr>buffer_m = 1, capacity_m = 3\<rparr>, 1 := \<lparr>buffer_m = 5, capacity_m = 2\<rparr>)) 1) = 0
      \<and> capacity_m (RawMemory_move_assign 0 1
      ((\<lambda>_. RawMemory_default)(0 := \<lparr>buffer_m = 1, capacity_m = 3\<rparr>, 1 := \<lparr>buffer_m = 5, capacity_m = 2\<rparr>)) 1) = 0)"
  by (simp add: RawMemory_move_assign_def RawMemory_Swap_def)

text \<open>
  Claim C9, amended. Move construction gives the new object the source's address and
  capacity and leaves the source with a null address and zero capacity. Move assignment
  between two different objects exchanges their blocks: the destination owns the source's
  block and the source owns the block the destination had (a null address and zero
  capacity only when the destination owned nothing); every other object is untouched, and
  assigning an object to itself changes nothing. Neither operation takes the free store:
  no cell is read, written or copied.
\<close>

theorem RawMemory_move_transfers_block:
  "RawMemory_move_ctor other = (other, \<lparr>buffer_m = 0, capacity_m = 0\<rparr>) \<and>
   RawMemory_move_assign this this objs = objs \<and>
   (this \<noteq> rhs \<longrightarrow>
      RawMemory_move_assign this rhs objs = objs(this := objs rhs, rhs := objs this))"
  by (simp add: RawMemory_move_ctor_def RawMemory_move_assign_def RawMemory_Swap_def)

theorem RawMemory_move_transfers_block_witness:
  "RawMemory_move_ctor \<lparr>buffer_m = 5, capacity_m = 2\<rparr>
     = (\<lparr>buffer_m = 5, capacity_m = 2\<rparr>, \<lparr>buffer_m = 0, capacity_m = 0\<rparr>) \<and>
   (0::nat) \<noteq> 1 \<and>
   RawMemory_move_assign 0 1
      ((\<lambda>_. RawMemory_default)(0 := RawMemory_default, 1 := \<lparr>buffer_m = 5, capacity_m = 2\<rparr>))
     = (\<lambda>_. RawMemory_default)(0 := \<lparr>buffer_m = 5, capacity_m = 2\<rparr>, 1 := RawMemory_default)"
  using RawMemory_move_transfers_block
    [of "\<lparr>buffer_m = 5, capacity_m = 2\<rparr>" 0
        "(\<lambda>_. RawMemory_default)(0 := RawMemory_default, 1 := \<lparr>buffer_m = 5, capacity_m = 2\<rparr>)" 1]
  by (simp add: fun_upd_twist)

section \<open>Self-assignment\<close>

text \<open>
  Claim C10. For every array \<open>v\<close>, self-assignment, both the copy assignment
  \<^verbatim>\<open>v = v\<close> and the move assignment \<^verbatim>\<open>v = std::move(v)\<close>, leaves the length, the
  capacity and the contents of \<open>v\<close> unchanged: both operators compare the addresses of
  their operands first and return at once, so neither the array objects nor the free store
  change.
\<close>

theorem self_assignment_changes_nothing:
  "Vector_copy_assign T v v objs h = Normal () (objs, h) \<and> Vector_move_assign v v objs = objs"
  by (simp add: Vector_copy_assign_def Vector_move_assign_def)

section \<open>Reserve\<close>

text \<open>
  Claim C5. \<^verbatim>\<open>Reserve(newCapacity)\<close> changes nothing (length, capacity, contents) when
  \<^verbatim>\<open>newCapacity\<close> does not exceed the current capacity. Otherwise the capacity becomes
  exactly \<^verbatim>\<open>newCapacity\<close>, the length is unchanged and the elements are transferred in
  order: by move when the move constructor cannot throw, otherwise by copy when the type is
  copy-constructible, otherwise by a move that may throw; and when a copy throws, the
  original array is untouched.

  For an array that represents \<open>xs\<close>: a request within the capacity returns the state
  as it is. A larger request is for a new block, whose size in bytes
  \<^verbatim>\<open>new_capacity * sizeof(T)\<close> is computed in \<^verbatim>\<open>size_t\<close>. When this size is a value
  of \<^verbatim>\<open>size_t\<close>, the code does what the claim says. A request that the store cannot
  serve throws \<open>bad_alloc\<close> with the state as it is. Otherwise, with a non-throwing
  move constructor the call succeeds whatever the copy constructor would do; else, with a
  copy constructor, it succeeds unless the copy of some element throws, and then the
  exception leaves the same object representing the same \<open>xs\<close>; else, with a move
  constructor only, it succeeds unless the move of some element throws. On success the
  array owns a new block of exactly \<open>new_capacity\<close> cells and represents the same
  \<open>xs\<close>. A type with neither constructor is rejected by the \<^verbatim>\<open>static_assert\<close>.

  When the size in bytes is not a value of \<^verbatim>\<open>size_t\<close>, it wraps and the code goes on with
  the smaller block it gets. On elements of 4 bytes, \<^verbatim>\<open>Reserve\<close> of \<open>2 ^ 62\<close>
  elements asks \<^verbatim>\<open>operator new\<close> for 0 bytes. With the array \<open>[7, 8]\<close> the
  relocation then constructs the elements outside the block it got, which is undefined
  behaviour. With an empty array the call returns, and leaves an array of capacity
  \<open>2 ^ 62\<close> whose block has no cell: the next \<^verbatim>\<open>EmplaceBack\<close> constructs its
  element outside it.
\<close>

theorem Reserve_specification:
  assumes "represents this h xs"
  shows
    "(new_capacity \<le> Capacity this \<longrightarrow> Reserve T new_capacity this h = Normal () (this, h)) \<and>
     (Capacity this < new_capacity \<and> new_capacity * sizeof_T h < 2 ^ 64 \<longrightarrow>
        (if limit h < brk h + new_capacity then
           Reserve T new_capacity this h = Throw bad_alloc (this, h)
         else if is_nothrow_move_constructible T then
           (\<exists>h'. Reserve T new_capacity this h =
                   Normal () (this\<lparr>data_m := \<lparr>buffer_m = brk h + 1, capacity_m = new_capacity\<rparr>\<rparr>, h') \<and>
                 represents (this\<lparr>data_m := \<lparr>buffer_m = brk h + 1, capacity_m = new_capacity\<rparr>\<rparr>) h' xs)
         else if is_copy_constructible T then
           (if \<exists>x\<in>set xs. copy_ctor_throws T x then
              (\<exists>h'. Reserve T new_capacity this h = Throw element_exception (this, h') \<and>
                    represents this h' xs)
            else
              (\<exists>h'. Reserve T new_capacity this h =
                      Normal () (this\<lparr>data_m := \<lparr>buffer_m = brk h + 1, capacity_m = new_capacity\<rparr>\<rparr>, h') \<and>
                    represents (this\<lparr>data_m := \<lparr>buffer_m = brk h + 1, capacity_m = new_capacity\<rparr>\<rparr>) h' xs))
         else if is_move_constructible T then
           (if \<exists>x\<in>set xs. move_ctor_throws T x then
              (\<exists>h'. Reserve T new_capacity this h = Throw element_exception (this, h'))
            else
              (\<exists>h'. Reserve T new_capacity this h =
                      Normal () (this\<lparr>data_m := \<lparr>buffer_m = brk h + 1, capacity_m = new_capacity\<rparr>\<rparr>, h') \<and>
                    represents (this\<lparr>data_m := \<lparr>buffer_m = brk h + 1, capacity_m = new_capacity\<rparr>\<rparr>) h' xs))
         else Reserve T new_capacity this h = Fault static_assertion_failed)) \<and>
     Reserve Obj (2 ^ 62) full2 (two_cells 7 8) = Fault undefined_behaviour \<and>
     (\<exists>h'. Reserve Obj (2 ^ 62) Vector_default (two_cells 7 8) =
             Normal () (\<lparr>data_m = \<lparr>buffer_m = 3, capacity_m = 2 ^ 62\<rparr>, size_m = 0\<rparr>, h') \<and>
           blocks h' 3 = Some 0 \<and> cell h' 3 = Unallocated \<and>
           EmplaceBack Obj (CtorArgs (Some 9))
             \<lparr>data_m = \<lparr>buffer_m = 3, capacity_m = 2 ^ 62\<rparr>, size_m = 0\<rparr> h' =
             Fault undefined_behaviour)"
proof (intro conjI impI)
  assume "new_capacity \<le> Capacity this"
  then show "Reserve T new_capacity this h = Normal () (this, h)" by (rule Reserve_noop)
next
  assume "Capacity this < new_capacity \<and> new_capacity * sizeof_T h < 2 ^ 64"
  then have cap: "Capacity this < new_capacity" and fits: "new_capacity * sizeof_T h < 2 ^ 64"
    by simp_all
  show "if limit h < brk h + new_capacity then
           Reserve T new_capacity this h = Throw bad_alloc (this, h)
         else if is_nothrow_move_constructible T then
           (\<exists>h'. Reserve T new_capacity this h =
                   Normal () (this\<lparr>data_m := \<lparr>buffer_m = brk h + 1, capacity_m = new_capacity\<rparr>\<rparr>, h') \<and>
                 represents (this\<lparr>data_m := \<lparr>buffer_m = brk h + 1, capacity_m = new_capacity\<rparr>\<rparr>) h' xs)
         else if is_copy_constructible T then
           (if \<exists>x\<in>set xs. copy_ctor_throws T x then
              (\<exists>h'. Reserve T new_capacity this h = Throw element_exception (this, h') \<and>
                    represents this h' xs)
            else
              (\<exists>h'. Reserve T new_capacity this h =
                      Normal () (this\<lparr>data_m := \<lparr>buffer_m = brk h + 1, capacity_m = new_capacity\<rparr>\<rparr>, h') \<and>
                    represents (this\<lparr>data_m := \<lparr>buffer_m = brk h + 1, capacity_m = new_capacity\<rparr>\<rparr>) h' xs))
         else if is_move_constructible T then
           (if \<exists>x\<in>set xs. move_ctor_throws T x then
              (\<exists>h'. Reserve T new_capacity this h = Throw element_exception (this, h'))
            else
              (\<exists>h'. Reserve T new_capacity this h =
                      Normal () (this\<lparr>data_m := \<lparr>buffer_m = brk h + 1, capacity_m = new_capacity\<rparr>\<rparr>, h') \<and>
                    represents (this\<lparr>data_m := \<lparr>buffer_m = brk h + 1, capacity_m = new_capacity\<rparr>\<rparr>) h' xs))
         else Reserve T new_capacity this h = Fault static_assertion_failed"
  proof (cases "limit h < brk h + new_capacity")
    case True
    with cap fits represents_fits(1) [OF assms] show ?thesis by (simp add: Reserve_bad_alloc)
  next
    case False
    from Reserve_grow [OF assms cap fits False, of T] False
    show ?thesis by (auto simp add: move_throws_def split: if_splits)
  qed
next
  show "Reserve Obj (2 ^ 62) full2 (two_cells 7 8) = Fault undefined_behaviour"
    unfolding Reserve_def full2_def two_cells_def Obj_def
    by (simp add: object_defs store_defs RawMemory_defs Vector_defs Let_def loop_steps)
next
  have "\<exists>h'. Reserve Obj (2 ^ 62) Vector_default (two_cells 7 8) =
             Normal () (\<lparr>data_m = \<lparr>buffer_m = 3, capacity_m = 2 ^ 62\<rparr>, size_m = 0\<rparr>, h') \<and>
           blocks h' 3 = Some 0 \<and> cell h' 3 = Unallocated \<and> brk h' = 3"
    unfolding Reserve_def two_cells_def Obj_def
    by (simp add: object_defs store_defs RawMemory_defs Vector_defs Let_def loop_steps)
  then obtain h' where r: "Reserve Obj (2 ^ 62) Vector_default (two_cells 7 8) =
             Normal () (\<lparr>data_m = \<lparr>buffer_m = 3, capacity_m = 2 ^ 62\<rparr>, size_m = 0\<rparr>, h')"
    and b: "blocks h' 3 = Some 0" and c: "cell h' 3 = Unallocated"
    by blast
  have "EmplaceBack Obj (CtorArgs (Some 9))
          \<lparr>data_m = \<lparr>buffer_m = 3, capacity_m = 2 ^ 62\<rparr>, size_m = 0\<rparr> h' =
        Fault undefined_behaviour"
    unfolding EmplaceBack_def
    by (simp add: object_defs RawMemory_defs Vector_defs c)
  with r b c show "\<exists>h'. Reserve Obj (2 ^ 62) Vector_default (two_cells 7 8) =
             Normal () (\<lparr>data_m = \<lparr>buffer_m = 3, capacity_m = 2 ^ 62\<rparr>, size_m = 0\<rparr>, h') \<and>
           blocks h' 3 = Some 0 \<and> cell h' 3 = Unallocated \<and>
           EmplaceBack Obj (CtorArgs (Some 9))
             \<lparr>data_m = \<lparr>buffer_m = 3, capacity_m = 2 ^ 62\<rparr>, size_m = 0\<rparr> h' =
             Fault undefined_behaviour"
    by blast
qed

theorem Reserve_specification_witness:
  "represents full2 (two_cells 7 8) [7, 8] \<and>
   (\<exists>h'. Reserve Obj 5 full2 (two_cells 7 8) =
            Normal () (full2\<lparr>data_m := \<lparr>buffer_m = 3, capacity_m = 5\<rparr>\<rparr>, h') \<and>
          represents (full2\<lparr>data_m := \<lparr>buffer_m = 3, capacity_m = 5\<rparr>\<rparr>) h' [7, 8]) \<and>
   represents full2 (two_cells 7 13) [7, 13] \<and>
   (\<exists>h'. Reserve Obj 5 full2 (two_cells 7 13) = Throw element_exception (full2, h') \<and>
          represents full2 h' [7, 13]) \<and>
   Reserve Obj 2 full2 (two_cells 7 13) = Normal () (full2, two_cells 7 13)"
  using Reserve_specification [OF represents_two_cells [of 7 8], where new_capacity = 5 and T = Obj]
    Reserve_specification [OF represents_two_cells [of 7 13], where new_capacity = 5 and T = Obj]
    Reserve_specification [OF represents_two_cells [of 7 13], where new_capacity = 2 and T = Obj]
  by (simp add: represents_two_cells fixture_simps)

section \<open>EmplaceBack on a full array: the exception paths\<close>

text \<open>
  Claim C2. For every PushBack/EmplaceBack on an array at full capacity, the new element
  is constructed in its final slot of the new block before any existing element is
  relocated; if constructing it throws, nothing else has been touched; if relocating the
  existing elements throws, the new element is destroyed, the exception propagates and the
  array's length, capacity and contents are exactly as before the call.

  The last part fails for an element type without copy constructor whose move constructor
  throws: the code relocates such elements by move. On the full array \<open>[7, 13]\<close> of
  \<open>MoveOnly\<close> elements, the move of 13 throws after 7 has been moved out: the exception
  leaves the array with its first element moved-from (0), so it no longer holds
  \<open>[7, 13]\<close>.
\<close>

theorem EmplaceBack_move_only_changes_contents:
  "represents full2 (two_cells 7 13) [7, 13] \<and> size_m full2 = Capacity full2 \<and>
   (\<exists>h'. EmplaceBack MoveOnly (CtorArgs (Some 9)) full2 (two_cells 7 13) =
            Throw element_exception (full2, h') \<and>
          cell h' 1 = Live 0 \<and> \<not> represents full2 h' [7, 13])"
proof -
  have "\<exists>h'. EmplaceBack MoveOnly (CtorArgs (Some 9)) full2 (two_cells 7 13) =
            Throw element_exception (full2, h') \<and> cell h' 1 = Live 0"
    unfolding EmplaceBack_def full2_def two_cells_def MoveOnly_def Obj_def
    by (simp add: object_defs store_defs RawMemory_defs Vector_defs Let_def loop_steps)
  then obtain h' where e: "EmplaceBack MoveOnly (CtorArgs (Some 9)) full2 (two_cells 7 13) =
            Throw element_exception (full2, h')" and c: "cell h' 1 = Live 0"
    by blast
  have "\<not> represents full2 h' [7, 13]"
  proof
    assume "represents full2 h' [7, 13]"
    then have "cell h' (1 + 0) = Live ([7, 13] ! 0)"
      unfolding represents_iff fixture_simps by simp
    with c show False by simp
  qed
  with e c show ?thesis by (auto simp add: represents_two_cells fixture_simps)
qed

text \<open>
  Claim C2, amended. On an array at full capacity, PushBack/EmplaceBack asks for a block of
  \<open>max 1 (2 * capacity)\<close> elements; the statement is for a block whose size in bytes
  is a value of \<^verbatim>\<open>size_t\<close>. When the store cannot serve the block,
  \<open>bad_alloc\<close> leaves the state as it is. Otherwise the new element is constructed
  from the argument in the new block, at the index that is the length of the array, before
  any element is relocated; an argument that refers to no live object is undefined
  behaviour. When this construction throws, the exception leaves the same object
  representing the same elements, and nothing of the new block. Once it has returned, the
  array holds \<open>ys\<close>: the elements it held, with a moved-from value in place of the
  element that an rvalue-reference argument designates, if it designates one. When the
  relocation throws, the new element is destroyed and the new block released without an
  object in it (every cell above the old break is unallocated), the exception propagates,
  and the object, hence its length and capacity, is as before. Its contents are exactly
  \<open>ys\<close> when the elements are relocated by copy (the type is copy-constructible and
  its move constructor may throw). When they are relocated by move (the move constructor is
  non-throwing, or there is no copy constructor) and the move of the element at index
  \<open>k\<close> throws, the elements before \<open>k\<close> are left moved-from and the others
  are unchanged. When nothing throws, the call returns the address of the new element, at
  the index that was the length in the new block, and the array has the capacity
  \<open>max 1 (2 * capacity)\<close>, one element more, and holds \<open>ys\<close> followed by
  the new element.
\<close>

theorem EmplaceBack_full_exception_safety:
  assumes rep: "represents this h xs" and full: "size_m this = Capacity this"
    and fits: "max 1 (2 * Capacity this) * sizeof_T h < 2 ^ 64"
  shows
    "if limit h < brk h + max 1 (2 * Capacity this) then
       EmplaceBack T args this h = Throw bad_alloc (this, h)
     else
       (case construct_from T args h of
          Fault x \<Rightarrow> EmplaceBack T args this h = Fault x
        | Throw e g \<Rightarrow>
            (\<exists>h'. EmplaceBack T args this h = Throw e (this, h') \<and>
                  represents this h' xs \<and> (\<forall>a. brk h < a \<longrightarrow> cell h' a = Unallocated))
        | Normal v g \<Rightarrow>
            (let ys = after_forward T args this xs;
                 this' = \<lparr>data_m = \<lparr>buffer_m = brk h + 1, capacity_m = max 1 (2 * Capacity this)\<rparr>,
                          size_m = length xs + 1\<rparr>
             in
             if is_nothrow_move_constructible T \<or> \<not> is_copy_constructible T then
               (if \<exists>x\<in>set ys. move_throws T x then
                  (\<exists>h' k. EmplaceBack T args this h = Throw element_exception (this, h') \<and>
                     k < length ys \<and> move_throws T (ys ! k) \<and> (\<forall>i<k. \<not> move_throws T (ys ! i)) \<and>
                     represents this h' (map (moved_from T) (take k ys) @ drop k ys) \<and>
                     (\<forall>a. brk h < a \<longrightarrow> cell h' a = Unallocated))
                else
                  (\<exists>h'. EmplaceBack T args this h = Normal (brk h + 1 + length xs) (this', h') \<and>
                        represents this' h' (ys @ [v])))
             else
               (if \<exists>x\<in>set ys. copy_ctor_throws T x then
                  (\<exists>h'. EmplaceBack T args this h = Throw element_exception (this, h') \<and>
                        represents this h' ys \<and> (\<forall>a. brk h < a \<longrightarrow> cell h' a = Unallocated))
                else
                  (\<exists>h'. EmplaceBack T args this h = Normal (brk h + 1 + length xs) (this', h') \<and>
                        represents this' h' (ys @ [v])))))"
proof -
  define b where "b = buffer_m (data_m this)"
  define m where "m = length xs"
  define n where "n = max 1 (2 * m)"
  define d where "d = brk h + 1"
  define nd where "nd = \<lparr>buffer_m = d, capacity_m = n\<rparr>"
  define h1 where "h1 = h\<lparr>cells := (\<lambda>a. if brk h + 1 \<le> a \<and> a < brk h + 1 + n then Raw else cells h a),
              blocks := (blocks h)(brk h + 1 \<mapsto> n), brk := brk h + n\<rparr>"
  define p where "p = d + m"
  define ys where "ys = after_forward T args this xs"
  define new where "new = \<lparr>data_m = nd, size_m = m + 1\<rparr>"
  have size: "size_m this = m" and cap: "capacity_m (data_m this) = m" and Cap: "Capacity this = m"
    using rep full by (simp_all add: represents_iff m_def Capacity_def RawMemory_Capacity_def)
  have mn: "m < n" by (simp add: n_def)
  have spos: "0 < sizeof_T h" using rep by (simp add: represents_iff)
  have nfits: "n * sizeof_T h < 2 ^ 64" using fits by (simp add: n_def Cap)
  have "n * 1 \<le> n * sizeof_T h" using spos by (intro mult_le_mono2) simp
  then have "n \<le> n * sizeof_T h" by simp
  then have "n < 2 ^ 64" using nfits by (rule le_less_trans)
  then have rng: "2 * Capacity this < 2 ^ 64" by (simp add: n_def Cap)
  have n_eq: "(if size_m this = 0 then 1 else (size_m this * 2) mod 2 ^ 64) = n"
    using rng by (auto simp add: size Cap n_def double_no_wrap)
  have dle: "buffer_m (data_m this) + capacity_m (data_m this) \<le> d" and dpos: "0 < d"
    using represents_below_break [OF rep] by (simp_all add: d_def)
  have bd: "b + m \<le> d" using dle by (simp add: b_def cap)
  have lenys: "length ys = m" by (simp add: ys_def m_def)
  have set_conv: "\<And>P. (\<exists>x\<in>set ys. P x) = (\<exists>i<m. P (ys ! i))"
    unfolding lenys [symmetric] by (metis in_set_conv_nth)
  have sizele: "size_m this \<le> capacity_m nd" and sizelt: "size_m this < capacity_m nd"
    using mn by (simp_all add: size nd_def)
  have inner_eq: "and_then (construct_args T (buffer_m nd + size_m this) args h1)
               (\<lambda>_ h2. try_catch
                  (if is_nothrow_move_constructible T \<or> \<not> is_copy_constructible T then
                     uninitialized_move_n T (buffer_m (data_m this)) (size_m this) (buffer_m nd) h2
                   else
                     uninitialized_copy_n T (buffer_m (data_m this)) (size_m this) (buffer_m nd) h2)
                  (\<lambda>e h3. and_then (destroy_at (buffer_m nd + size_m this) h3) (\<lambda>_. Throw e)))
     = and_then (construct_args T p args h1)
               (\<lambda>_ h2. try_catch
                  (if is_nothrow_move_constructible T \<or> \<not> is_copy_constructible T then
                     uninitialized_move_n T b m d h2
                   else
                     uninitialized_copy_n T b m d h2)
                  (\<lambda>e h3. and_then (destroy_at p h3) (\<lambda>_. Throw e)))"
    by (simp add: nd_def size p_def b_def cong: if_cong)
  have giveup: "\<exists>h'. EmplaceBack T args this h = Throw element_exception (this, h') \<and>
             represents this h' zs \<and> (\<forall>a. brk h < a \<longrightarrow> cell h' a = Unallocated)"
    if alloc: "RawMemory_ctor n h = Normal nd h1"
      and inner: "and_then (construct_args T p args h1)
               (\<lambda>_ h2. try_catch
                  (if is_nothrow_move_constructible T \<or> \<not> is_copy_constructible T then
                     uninitialized_move_n T b m d h2
                   else
                     uninitialized_copy_n T b m d h2)
                  (\<lambda>e h3. and_then (destroy_at p h3) (\<lambda>_. Throw e)))
           = Throw element_exception g"
      and repg: "represents this g zs"
      and newg: "\<And>i. i < n \<Longrightarrow> cell g (d + i) = Raw"
      and blockg: "blocks g d = Some n" and brkg: "brk g = brk h + n"
    for g zs
  proof -
    from release_new_block [OF repg blockg dle dpos]
    obtain h' where dt: "RawMemory_dtor nd g = Normal () h'" and rep': "represents this h' zs"
      and inside: "\<forall>a. d \<le> a \<and> a < d + n \<and> cell g a = Raw \<longrightarrow> cell h' a = Unallocated"
      and outside: "\<forall>a. \<not> (d \<le> a \<and> a < d + n) \<longrightarrow> cell h' a = cell g a"
      unfolding nd_def by blast
    have "cell h' a = Unallocated" if a: "brk h < a" for a
    proof (cases "a < d + n")
      case True
      with a have "d \<le> a" by (simp add: d_def)
      moreover from newg [of "a - d"] True this have "cell g a = Raw" by simp
      ultimately show ?thesis using inside True by blast
    next
      case False
      then have "cell g a = Unallocated" by (simp add: cell_def brkg d_def)
      with outside False show ?thesis by simp
    qed
    moreover have "EmplaceBack T args this h = Throw element_exception (this, h')"
    proof (rule EmplaceBack_full_Throw [OF full, where nd = nd and ?h1.0 = h1 and ?h4.0 = g])
      show "RawMemory_ctor (if size_m this = 0 then 1 else size_m this * 2 mod 2 ^ 64) h = Normal nd h1"
        using alloc n_eq by simp
      show "size_m this \<le> capacity_m nd" by (rule sizele)
      show "RawMemory_dtor nd g = Normal () h'" by (rule dt)
      show "and_then (construct_args T (buffer_m nd + size_m this) args h1)
               (\<lambda>_ h2. try_catch
                  (if is_nothrow_move_constructible T \<or> \<not> is_copy_constructible T then
                     uninitialized_move_n T (buffer_m (data_m this)) (size_m this) (buffer_m nd) h2
                   else
                     uninitialized_copy_n T (buffer_m (data_m this)) (size_m this) (buffer_m nd) h2)
                  (\<lambda>e h3. and_then (destroy_at (buffer_m nd + size_m this) h3) (\<lambda>_. Throw e)))
           = Throw element_exception g"
        unfolding inner_eq by (rule inner)
    qed
    ultimately show ?thesis using rep' by blast
  qed
  have commit: "\<exists>h'. EmplaceBack T args this h = Normal (d + m) (new, h') \<and> represents new h' zs"
    if alloc: "RawMemory_ctor n h = Normal nd h1"
      and inner: "and_then (construct_args T p args h1)
               (\<lambda>_ h2. try_catch
                  (if is_nothrow_move_constructible T \<or> \<not> is_copy_constructible T then
                     uninitialized_move_n T b m d h2
                   else
                     uninitialized_copy_n T b m d h2)
                  (\<lambda>e h3. and_then (destroy_at p h3) (\<lambda>_. Throw e)))
           = Normal () g"
      and oldg: "represents this g os"
      and newg: "represents new g zs"
    for g os zs
  proof -
    from Vector_dtor_frame [OF oldg] obtain h5 where
      dt: "Vector_dtor this g = Normal () h5"
      and fr: "\<forall>v zs. represents v g zs \<longrightarrow>
              (buffer_m (data_m this) + capacity_m (data_m this) \<le> buffer_m (data_m v) \<or>
               buffer_m (data_m v) + capacity_m (data_m v) \<le> buffer_m (data_m this)) \<longrightarrow>
              represents v h5 zs"
      by blast
    have "buffer_m (data_m this) + capacity_m (data_m this) \<le> buffer_m (data_m new)"
      using dle by (simp add: new_def nd_def)
    with fr newg have "represents new h5 zs" by blast
    moreover have "EmplaceBack T args this h = Normal (d + m) (new, h5)"
    proof -
      have a: "RawMemory_ctor (if size_m this = 0 then 1 else size_m this * 2 mod 2 ^ 64) h = Normal nd h1"
        using alloc n_eq by simp
      have i: "and_then (construct_args T (buffer_m nd + size_m this) args h1)
               (\<lambda>_ h2. try_catch
                  (if is_nothrow_move_constructible T \<or> \<not> is_copy_constructible T then
                     uninitialized_move_n T (buffer_m (data_m this)) (size_m this) (buffer_m nd) h2
                   else
                     uninitialized_copy_n T (buffer_m (data_m this)) (size_m this) (buffer_m nd) h2)
                  (\<lambda>e h3. and_then (destroy_at (buffer_m nd + size_m this) h3) (\<lambda>_. Throw e)))
           = Normal () g"
        unfolding inner_eq by (rule inner)
      from EmplaceBack_full_Normal [OF full a sizelt i dt]
      show ?thesis by (simp add: nd_def size new_def)
    qed
    ultimately show ?thesis by blast
  qed
  show ?thesis
  proof (cases "limit h < brk h + n")
    case True
    then have "RawMemory_ctor n h = Throw bad_alloc h"
      using mn spos nfits by (simp add: RawMemory_ctor_pos)
    then have "EmplaceBack T args this h = Throw bad_alloc (this, h)"
      using full n_eq by (simp add: EmplaceBack_def)
    with True show ?thesis by (simp add: n_def Cap)
  next
    case False
    then have alloc: "RawMemory_ctor n h = Normal nd h1"
      using mn spos nfits by (simp add: RawMemory_ctor_pos h1_def d_def nd_def)
    have alloc': "RawMemory_ctor (if size_m this = 0 then 1 else size_m this * 2 mod 2 ^ 64) h = Normal nd h1"
      using alloc n_eq by simp
    note give = giveup [OF alloc]
    note cfa = construct_from_after_alloc [of T args h n, folded h1_def]
    show ?thesis
    proof (cases "construct_from T args h")
      case (Fault x)
      then have "construct_args T p args h1 = Fault x"
        by (simp add: construct_args_def cfa)
      then have "construct_args T (buffer_m nd + size_m this) args h1 = Fault x"
        by (simp add: nd_def size p_def)
      from EmplaceBack_full_Fault [OF full alloc' sizele this]
      show ?thesis using False Fault by (simp add: n_def Cap)
    next
      case (Throw e g)
      from construct_from_Throw [OF Throw] have e: "e = element_exception" by simp
      from alloc_facts [OF rep, of n]
      have af: "represents this h1 xs" "\<And>i. i < n \<Longrightarrow> cell h1 (d + i) = Raw" "blocks h1 d = Some n"
        by (simp_all add: h1_def d_def)
      have brk1: "brk h1 = brk h + n" by (simp add: h1_def)
      have "construct_args T p args h1 = Throw element_exception h1"
        using Throw e by (simp add: construct_args_def cfa)
      then have "\<exists>h'. EmplaceBack T args this h = Throw element_exception (this, h') \<and>
             represents this h' xs \<and> (\<forall>a. brk h < a \<longrightarrow> cell h' a = Unallocated)"
        by (intro give [OF _ af(1) af(2) af(3) brk1]) simp_all
      with False Throw e show ?thesis by (simp add: n_def Cap)
    next
      case (Normal v g)
      note cg = construct_from_represents [OF rep Normal]
      have repg: "represents this g ys" using cg(1) by (simp add: ys_def)
      define g1 where "g1 = g\<lparr>cells := (\<lambda>a. if brk g + 1 \<le> a \<and> a < brk g + 1 + n then Raw else cells g a),
              blocks := (blocks g)(brk g + 1 \<mapsto> n), brk := brk g + n\<rparr>"
      from alloc_facts [OF repg, of n]
      have af: "represents this g1 ys" "\<And>i. i < n \<Longrightarrow> cell g1 (d + i) = Raw" "blocks g1 d = Some n"
        by (simp_all add: g1_def d_def cg)
      have brk1: "brk g1 = brk h + n" and size1: "sizeof_T g1 = sizeof_T h"
        by (simp_all add: g1_def cg)
      have cf1: "construct_from T args h1 = Normal v g1"
        using Normal by (simp add: cfa g1_def)
      have pRaw: "cell g1 p = Raw" unfolding p_def using af(2) [OF mn] .
      define h2 where "h2 = g1\<lparr>cells := (cells g1)(p := Live v)\<rparr>"
      have ctor: "construct_args T p args h1 = Normal () h2"
        using pRaw by (simp add: construct_args_def cf1 construct_at_Raw h2_def)
      have pin: "0 < p \<and> p \<le> brk g1 \<and> cells g1 p = Raw" using cell_RawD [OF pRaw] .
      have cell2: "cell h2 a = (if a = p then Live v else cell g1 a)" for a
        using pin by (simp add: h2_def cell_def)
      have blocks2: "blocks h2 = blocks g1" and size2: "sizeof_T h2 = sizeof_T h"
        by (simp_all add: h2_def size1)
      have old1: "cell g1 (b + i) = Live (ys ! i)" if "i < m" for i
        using live_prefix [OF af(1), of i] that by (simp add: b_def lenys)
      have src: "\<forall>i<m. cell h2 (b + i) = Live (ys ! i)"
      proof (intro allI impI)
        fix i assume i: "i < m"
        have "b + i \<noteq> p" using bd i by (simp add: p_def)
        then show "cell h2 (b + i) = Live (ys ! i)" using old1 [OF i] by (simp add: cell2)
      qed
      have dst: "\<forall>i<m. cell h2 (d + i) = Raw"
      proof (intro allI impI)
        fix i assume i: "i < m"
        have c1: "cell g1 (d + i) = Raw" using af(2) [of i] i mn by simp
        moreover have "d + i \<noteq> p" using i by (simp add: p_def)
        ultimately show "cell h2 (d + i) = Raw" by (simp add: cell2)
      qed
      have disj: "b + m \<le> d \<or> d + m \<le> b" using bd by simp
      have pLive: "cell h2 p = Live v" by (simp add: cell2)
      have "(cells g1)(p := Raw) = cells g1"
        using pin by (simp add: fun_upd_idem)
      then have undo: "h2\<lparr>cells := (cells h2)(p := Raw)\<rparr> = g1"
        by (simp add: h2_def)
      have blk_old: "if capacity_m (data_m this) = 0 then buffer_m (data_m this) = 0
          else blocks g1 (buffer_m (data_m this)) = Some (capacity_m (data_m this))"
        using af(1) unfolding represents_iff by blast
      have cfit: "capacity_m (data_m this) * sizeof_T h < 2 ^ 64"
        using rep unfolding represents_iff by blast
      \<comment> \<open>the two blocks once every element has been relocated\<close>
      have relocated: "represents this h3 os \<and> represents new h3 (ys @ [v])"
        if cells3: "\<And>a. cell h3 a =
              (if d \<le> a \<and> a < d + m then Live (ys ! (a - d))
               else if b \<le> a \<and> a < b + m then Live (os ! (a - b))
               else cell h2 a)"
          and blocks3: "blocks h3 = blocks h2" and size3: "sizeof_T h3 = sizeof_T h2"
          and lenos: "length os = m"
        for h3 os
      proof
        have "cell h3 (buffer_m (data_m this) + i) = (if i < length os then Live (os ! i) else Raw)"
          if "i < capacity_m (data_m this)" for i
        proof -
          from that have i: "i < m" by (simp add: cap)
          then have "\<not> d \<le> b + i" "b \<le> b + i" "b + i < b + m" using bd by simp_all
          then show ?thesis using i by (simp add: cells3 lenos flip: b_def)
        qed
        then show "represents this h3 os"
          unfolding represents_iff
          using size cap blk_old spos cfit by (simp add: lenos blocks3 blocks2 size3 size2)
        have "cell h3 (buffer_m (data_m new) + i) =
            (if i < length (ys @ [v]) then Live ((ys @ [v]) ! i) else Raw)"
          if "i < capacity_m (data_m new)" for i
        proof -
          from that have i: "i < n" by (simp add: new_def nd_def)
          have nb: "\<not> d + i < b + m" using bd by simp
          consider "i < m" | "i = m" | "m < i" by linarith
          then show ?thesis
          proof cases
            case 1
            then show ?thesis by (simp add: cells3 new_def nd_def lenys nth_append)
          next
            case 2
            then have "\<not> (d \<le> d + i \<and> d + i < d + m)" "d + i = p" by (simp_all add: p_def)
            then show ?thesis using 2 nb by (simp add: cells3 cell2 new_def nd_def lenys nth_append)
          next
            case 3
            then have "\<not> (d \<le> d + i \<and> d + i < d + m)" "d + i \<noteq> p" by (simp_all add: p_def)
            then show ?thesis using 3 nb af(2) [OF i]
              by (simp add: cells3 cell2 new_def nd_def lenys)
          qed
        qed
        then show "represents new h3 (ys @ [v])"
          unfolding represents_iff
          using mn af(3) spos nfits
          by (simp add: new_def nd_def lenys blocks3 blocks2 size3 size2)
      qed
      show ?thesis
      proof (cases "is_nothrow_move_constructible T \<or> \<not> is_copy_constructible T")
        case move: True
        from uninitialized_move_n_result [OF src dst disj, of T]
        have "if \<exists>i<m. move_throws T (ys ! i) then
                (\<exists>h' k. EmplaceBack T args this h = Throw element_exception (this, h') \<and>
                   k < m \<and> move_throws T (ys ! k) \<and> (\<forall>i<k. \<not> move_throws T (ys ! i)) \<and>
                   represents this h' (map (moved_from T) (take k ys) @ drop k ys) \<and>
                   (\<forall>a. brk h < a \<longrightarrow> cell h' a = Unallocated))
              else (\<exists>h'. EmplaceBack T args this h = Normal (d + m) (new, h') \<and>
                         represents new h' (ys @ [v]))"
        proof (elim disjE)
          assume "\<exists>k<m. move_throws T (ys ! k) \<and> (\<forall>i<k. \<not> move_throws T (ys ! i)) \<and>
              uninitialized_move_n T b m d h2 =
                Throw element_exception
                  (h2\<lparr>cells := (\<lambda>a. if b \<le> a \<and> a < b + k then Live (moved_from T (ys ! (a - b)))
                                  else cells h2 a)\<rparr>)"
          then obtain k where k: "k < m" and tk: "move_throws T (ys ! k)"
            and before: "\<forall>i<k. \<not> move_throws T (ys ! i)"
            and r: "uninitialized_move_n T b m d h2 =
              Throw element_exception
                (h2\<lparr>cells := (\<lambda>a. if b \<le> a \<and> a < b + k then Live (moved_from T (ys ! (a - b)))
                                else cells h2 a)\<rparr>)"
            by blast
          let ?h3 = "h2\<lparr>cells := (\<lambda>a. if b \<le> a \<and> a < b + k then Live (moved_from T (ys ! (a - b)))
                                else cells h2 a)\<rparr>"
          define g' where "g' = g1\<lparr>cells := (\<lambda>a. if b \<le> a \<and> a < b + k then Live (moved_from T (ys ! (a - b)))
                                else cells g1 a)\<rparr>"
          have pout: "\<not> (b \<le> p \<and> p < b + k)" using bd k by (simp add: p_def)
          have "cell ?h3 p = Live v" using pin pout by (auto simp add: h2_def)
          then have "destroy_at p ?h3 = Normal () (?h3\<lparr>cells := (cells ?h3)(p := Raw)\<rparr>)"
            by (rule destroy_at_Live)
          moreover have "?h3\<lparr>cells := (cells ?h3)(p := Raw)\<rparr> = g'"
            using pin pout by (auto simp add: h2_def g'_def fun_eq_iff)
          ultimately have inner: "and_then (construct_args T p args h1)
               (\<lambda>_ h2. try_catch
                  (if is_nothrow_move_constructible T \<or> \<not> is_copy_constructible T then
                     uninitialized_move_n T b m d h2
                   else
                     uninitialized_copy_n T b m d h2)
                  (\<lambda>e h3. and_then (destroy_at p h3) (\<lambda>_. Throw e)))
             = Throw element_exception g'"
            using ctor move r by simp
          have repg': "represents this g' (map (moved_from T) (take k ys) @ drop k ys)"
            unfolding g'_def b_def
            by (rule represents_moved_prefix [OF af(1)]) (use k in \<open>simp add: lenys\<close>)
          have newg: "\<And>i. i < n \<Longrightarrow> cell g' (d + i) = Raw"
            using af(2) bd k by (auto simp add: g'_def dest!: cell_RawD)
          from give [OF inner repg' newg] af(3) brk1
          obtain h' where "EmplaceBack T args this h = Throw element_exception (this, h')"
            "represents this h' (map (moved_from T) (take k ys) @ drop k ys)"
            "\<forall>a. brk h < a \<longrightarrow> cell h' a = Unallocated"
            by (auto simp add: g'_def)
          with k tk before show ?thesis by auto
        next
          assume "\<not> (\<exists>i<m. move_throws T (ys ! i)) \<and>
              uninitialized_move_n T b m d h2 =
                Normal () (h2\<lparr>cells := (\<lambda>a. if d \<le> a \<and> a < d + m then Live (ys ! (a - d))
                                     else if b \<le> a \<and> a < b + m then Live (moved_from T (ys ! (a - b)))
                                     else cells h2 a)\<rparr>)"
          then have no: "\<not> (\<exists>i<m. move_throws T (ys ! i))"
            and r: "uninitialized_move_n T b m d h2 =
                Normal () (h2\<lparr>cells := (\<lambda>a. if d \<le> a \<and> a < d + m then Live (ys ! (a - d))
                                     else if b \<le> a \<and> a < b + m then Live (moved_from T (ys ! (a - b)))
                                     else cells h2 a)\<rparr>)"
            by blast+
          define h3 where "h3 = h2\<lparr>cells := (\<lambda>a. if d \<le> a \<and> a < d + m then Live (ys ! (a - d))
                                     else if b \<le> a \<and> a < b + m then Live (moved_from T (ys ! (a - b)))
                                     else cells h2 a)\<rparr>"
          have inner: "and_then (construct_args T p args h1)
               (\<lambda>_ h2. try_catch
                  (if is_nothrow_move_constructible T \<or> \<not> is_copy_constructible T then
                     uninitialized_move_n T b m d h2
                   else
                     uninitialized_copy_n T b m d h2)
                  (\<lambda>e h3. and_then (destroy_at p h3) (\<lambda>_. Throw e)))
             = Normal () h3"
            using ctor move r by (simp add: h3_def)
          have cells3: "cell h3 a =
              (if d \<le> a \<and> a < d + m then Live (ys ! (a - d))
               else if b \<le> a \<and> a < b + m then Live (map (moved_from T) ys ! (a - b))
               else cell h2 a)" for a
          proof (cases "d \<le> a \<and> a < d + m")
            case True
            then obtain i where "i < m" "a = d + i" by (metis le_Suc_ex nat_add_left_cancel_less)
            with dst have "cell h2 a = Raw" by simp
            from cell_RawD [OF this] True show ?thesis by (simp add: h3_def)
          next
            case nd: False
            show ?thesis
            proof (cases "b \<le> a \<and> a < b + m")
              case True
              then obtain i where i: "i < m" "a = b + i" by (metis le_Suc_ex nat_add_left_cancel_less)
              with src have c: "cell h2 a = Live (ys ! i)" by simp
              have "\<not> d \<le> a" "b \<le> a" "a < b + m" "a - b = i" using bd i by simp_all
              then show ?thesis using cell_LiveD [OF c] i(1) by (simp add: h3_def lenys)
            next
              case False
              with nd show ?thesis by (auto simp add: h3_def cell_def)
            qed
          qed
          from relocated [of h3 "map (moved_from T) ys", OF cells3]
          have "represents this h3 (map (moved_from T) ys)" "represents new h3 (ys @ [v])"
            by (simp_all add: h3_def lenys)
          from commit [OF alloc inner this] no show ?thesis by auto
        qed
        with False Normal move show ?thesis
          by (simp add: n_def Cap set_conv lenys ys_def [symmetric] new_def nd_def d_def m_def Let_def
                cong: if_cong)
      next
        case copy: False
        have "if \<exists>i<m. copy_ctor_throws T (ys ! i) then
                (\<exists>h'. EmplaceBack T args this h = Throw element_exception (this, h') \<and>
                      represents this h' ys \<and> (\<forall>a. brk h < a \<longrightarrow> cell h' a = Unallocated))
              else (\<exists>h'. EmplaceBack T args this h = Normal (d + m) (new, h') \<and>
                         represents new h' (ys @ [v]))"
        proof (cases "\<exists>i<m. copy_ctor_throws T (ys ! i)")
          case True
          with uninitialized_copy_n_result [OF src dst disj, of T]
          have r: "uninitialized_copy_n T b m d h2 = Throw element_exception h2" by simp
          have "destroy_at p h2 = Normal () (h2\<lparr>cells := (cells h2)(p := Raw)\<rparr>)"
            using pLive by (rule destroy_at_Live)
          with undo have "destroy_at p h2 = Normal () g1" by simp
          then have inner: "and_then (construct_args T p args h1)
               (\<lambda>_ h2. try_catch
                  (if is_nothrow_move_constructible T \<or> \<not> is_copy_constructible T then
                     uninitialized_move_n T b m d h2
                   else
                     uninitialized_copy_n T b m d h2)
                  (\<lambda>e h3. and_then (destroy_at p h3) (\<lambda>_. Throw e)))
             = Throw element_exception g1"
            using ctor copy r by simp
          from give [OF inner af(1) af(2) af(3) brk1] True show ?thesis by simp
        next
          case no: False
          define h3 where "h3 = h2\<lparr>cells := (\<lambda>a. if d \<le> a \<and> a < d + m then Live (ys ! (a - d)) else cells h2 a)\<rparr>"
          from uninitialized_copy_n_result [OF src dst disj, of T] no
          have r: "uninitialized_copy_n T b m d h2 = Normal () h3" by (simp add: h3_def)
          have inner: "and_then (construct_args T p args h1)
               (\<lambda>_ h2. try_catch
                  (if is_nothrow_move_constructible T \<or> \<not> is_copy_constructible T then
                     uninitialized_move_n T b m d h2
                   else
                     uninitialized_copy_n T b m d h2)
                  (\<lambda>e h3. and_then (destroy_at p h3) (\<lambda>_. Throw e)))
             = Normal () h3"
            using ctor copy r by simp
          have cells3: "cell h3 a =
              (if d \<le> a \<and> a < d + m then Live (ys ! (a - d))
               else if b \<le> a \<and> a < b + m then Live (ys ! (a - b))
               else cell h2 a)" for a
          proof (cases "d \<le> a \<and> a < d + m")
            case True
            then obtain i where "i < m" "a = d + i" by (metis le_Suc_ex nat_add_left_cancel_less)
            with dst have "cell h2 a = Raw" by simp
            from cell_RawD [OF this] True show ?thesis by (simp add: h3_def)
          next
            case nd: False
            show ?thesis
            proof (cases "b \<le> a \<and> a < b + m")
              case True
              then obtain i where i: "i < m" "a = b + i" by (metis le_Suc_ex nat_add_left_cancel_less)
              with src have c: "cell h2 a = Live (ys ! i)" by simp
              have "\<not> d \<le> a" "b \<le> a" "a < b + m" "a - b = i" using bd i by simp_all
              then show ?thesis using c cell_LiveD [OF c] i(1) by (simp add: h3_def)
            next
              case False
              with nd show ?thesis by (auto simp add: h3_def cell_def)
            qed
          qed
          from relocated [of h3 ys, OF cells3]
          have "represents this h3 ys" "represents new h3 (ys @ [v])"
            by (simp_all add: h3_def lenys)
          from commit [OF alloc inner this] no show ?thesis by auto
        qed
        with False Normal copy show ?thesis
          by (simp add: n_def Cap set_conv lenys ys_def [symmetric] new_def nd_def d_def m_def Let_def
                cong: if_cong)
      qed
    qed
  qed
qed

theorem EmplaceBack_full_exception_safety_witness:
  "represents full2 (two_cells 7 13) [7, 13] \<and> size_m full2 = Capacity full2 \<and>
   max 1 (2 * Capacity full2) * sizeof_T (two_cells 7 13) < 2 ^ 64 \<and>
   (\<exists>h'. EmplaceBack Obj (CtorArgs (Some 9)) full2 (two_cells 7 13) =
            Throw element_exception (full2, h') \<and>
          represents full2 h' [7, 13] \<and> (\<forall>a. 2 < a \<longrightarrow> cell h' a = Unallocated)) \<and>
   (\<exists>h'. EmplaceBack Obj (CtorArgs None) full2 (two_cells 7 8) =
            Throw element_exception (full2, h') \<and>
          represents full2 h' [7, 8] \<and> (\<forall>a. 2 < a \<longrightarrow> cell h' a = Unallocated)) \<and>
   (\<exists>h'. EmplaceBack Obj (ConstRef 2) full2 (two_cells 7 8) =
            Normal 5 (\<lparr>data_m = \<lparr>buffer_m = 3, capacity_m = 4\<rparr>, size_m = 3\<rparr>, h') \<and>
          represents \<lparr>data_m = \<lparr>buffer_m = 3, capacity_m = 4\<rparr>, size_m = 3\<rparr> h' [7, 8, 8]) \<and>
   (\<exists>h'. EmplaceBack String (RvalueRef 2) full2 (two_cells 7 8) =
            Normal 5 (\<lparr>data_m = \<lparr>buffer_m = 3, capacity_m = 4\<rparr>, size_m = 3\<rparr>, h') \<and>
          represents \<lparr>data_m = \<lparr>buffer_m = 3, capacity_m = 4\<rparr>, size_m = 3\<rparr> h' [7, 0, 8])"
proof -
  have c1: "construct_from Obj (CtorArgs (Some 9)) (two_cells 7 13) = Normal 9 (two_cells 7 13)"
    and c2: "construct_from Obj (CtorArgs None) (two_cells 7 8) = Throw element_exception (two_cells 7 8)"
    by (simp_all add: construct_from_def)
  have c3: "construct_from Obj (ConstRef 2) (two_cells 7 8) = Normal 8 (two_cells 7 8)"
    by (simp add: construct_from_def two_cells_def cell_def Obj_def)
  have "\<exists>g. construct_from String (RvalueRef 2) (two_cells 7 8) = Normal 8 g"
    by (simp add: construct_from_def two_cells_def cell_def String_def move_throws_def)
  then obtain g where c4: "construct_from String (RvalueRef 2) (two_cells 7 8) = Normal 8 g" ..
  have a4: "after_forward String (RvalueRef 2) full2 [7, 8] = [7, 0]"
    by (simp add: after_forward_def Vector_begin_def Vector_end_def GetAddress_def full2_def String_def)
  have full: "size_m full2 = Capacity full2" by (simp add: fixture_simps)
  have fits: "max 1 (2 * Capacity full2) * sizeof_T (two_cells a b) < 2 ^ 64" for a b :: nat
    by (simp add: fixture_simps)
  have len2: "length [a, b] = 2" for a b :: nat by simp
  note sims = represents_two_cells fixture_simps fixture_simps4 c1 c2 c3 c4 a4 Let_def len2
    numeral_3_eq_3 [symmetric]
  have e1: "\<exists>h'. EmplaceBack Obj (CtorArgs (Some 9)) full2 (two_cells 7 13) =
            Throw element_exception (full2, h') \<and>
          represents full2 h' [7, 13] \<and> (\<forall>a. 2 < a \<longrightarrow> cell h' a = Unallocated)"
    using EmplaceBack_full_exception_safety
            [OF represents_two_cells [of 7 13] full fits, where T = Obj and args = "CtorArgs (Some 9)"]
    by (simp add: sims)
  have e2: "\<exists>h'. EmplaceBack Obj (CtorArgs None) full2 (two_cells 7 8) =
            Throw element_exception (full2, h') \<and>
          represents full2 h' [7, 8] \<and> (\<forall>a. 2 < a \<longrightarrow> cell h' a = Unallocated)"
    using EmplaceBack_full_exception_safety
            [OF represents_two_cells [of 7 8] full fits, where T = Obj and args = "CtorArgs None"]
    by (simp add: sims)
  have e3: "\<exists>h'. EmplaceBack Obj (ConstRef 2) full2 (two_cells 7 8) =
            Normal 5 (\<lparr>data_m = \<lparr>buffer_m = 3, capacity_m = 4\<rparr>, size_m = 3\<rparr>, h') \<and>
          represents \<lparr>data_m = \<lparr>buffer_m = 3, capacity_m = 4\<rparr>, size_m = 3\<rparr> h' [7, 8, 8]"
    using EmplaceBack_full_exception_safety
            [OF represents_two_cells [of 7 8] full fits, where T = Obj and args = "ConstRef 2"]
    by (simp add: sims)
  have e4: "\<exists>h'. EmplaceBack String (RvalueRef 2) full2 (two_cells 7 8) =
            Normal 5 (\<lparr>data_m = \<lparr>buffer_m = 3, capacity_m = 4\<rparr>, size_m = 3\<rparr>, h') \<and>
          represents \<lparr>data_m = \<lparr>buffer_m = 3, capacity_m = 4\<rparr>, size_m = 3\<rparr> h' [7, 0, 8]"
    using EmplaceBack_full_exception_safety
            [OF represents_two_cells [of 7 8] full fits, where T = String and args = "RvalueRef 2"]
    by (simp add: sims)
  from represents_two_cells [of 7 13] full fits [of 7 13] e1 e2 e3 e4 show ?thesis by blast
qed

section \<open>The growth policy\<close>

text \<open>
  Claim C4. Whenever an append (PushBack/EmplaceBack) or an Insert/Emplace triggers
  implicit growth because the array is at full capacity, the capacity after the operation
  equals \<open>max(1, 2 * capacity before)\<close>.

  The code computes \<^verbatim>\<open>size_ == 0 ? 1 : size_ * 2\<close> in \<^verbatim>\<open>size_t\<close>. For the appends,
  a call that returns has passed the assertion of \<^verbatim>\<open>new_data + size_\<close>, which a wrapped
  product fails, so the result holds for every call that returns. Emplace computes its
  addresses without that assertion; for it the result is stated for arrays whose doubled
  capacity fits \<^verbatim>\<open>size_t\<close>, that is, for every array of fewer than \<open>2 ^ 63\<close> elements.
\<close>

theorem growth_doubles_capacity:
  "size_m this = Capacity this \<longrightarrow>
     (EmplaceBack T args this h = Normal r (this', h') \<longrightarrow>
        Capacity this' = max 1 (2 * Capacity this)) \<and>
     (PushBack_copy T x this h = Normal u (this', h') \<longrightarrow>
        Capacity this' = max 1 (2 * Capacity this)) \<and>
     (PushBack_move T x this h = Normal u (this', h') \<longrightarrow>
        Capacity this' = max 1 (2 * Capacity this)) \<and>
     (2 * Capacity this < 2 ^ 64 \<longrightarrow>
        (Emplace T pos args this h = Normal r (this', h') \<longrightarrow>
           Capacity this' = max 1 (2 * Capacity this)) \<and>
        (Insert_copy T pos x this h = Normal r (this', h') \<longrightarrow>
           Capacity this' = max 1 (2 * Capacity this)) \<and>
        (Insert_move T pos x this h = Normal r (this', h') \<longrightarrow>
           Capacity this' = max 1 (2 * Capacity this)))"
proof (intro impI conjI)
  assume full: "size_m this = Capacity this"
  have appended: "Capacity t = max 1 (2 * Capacity this)"
    if "EmplaceBack T a this h = Normal q (t, g)" for a q t g
  proof -
    from EmplaceBack_ends [of this T a h] that full
    obtain nd where "t = \<lparr>data_m = nd, size_m = size_m this + 1\<rparr>"
      and "capacity_m nd = (if size_m this = 0 then 1 else (size_m this * 2) mod 2 ^ 64)"
      and "size_m this < capacity_m nd"
      by auto
    with grown_capacity [of nd "size_m this"] full show ?thesis
      by (simp add: Capacity_def RawMemory_Capacity_def)
  qed
  show "Capacity this' = max 1 (2 * Capacity this)"
    if "EmplaceBack T args this h = Normal r (this', h')"
    using that by (rule appended)
  show "Capacity this' = max 1 (2 * Capacity this)"
    if "PushBack_copy T x this h = Normal u (this', h')"
    using that appended by (auto simp add: PushBack_copy_def and_then_eq_Normal)
  show "Capacity this' = max 1 (2 * Capacity this)"
    if "PushBack_move T x this h = Normal u (this', h')"
    using that appended by (auto simp add: PushBack_move_def and_then_eq_Normal)
  assume rng: "2 * Capacity this < 2 ^ 64"
  have ins: "Capacity t = max 1 (2 * Capacity this)"
    if "Emplace T pos a this h = Normal q (t, g)" for a q t g
  proof -
    from Emplace_ends [of this T pos a h] that full
    obtain nd where "t = \<lparr>data_m = nd, size_m = size_m this + 1\<rparr>"
      and "capacity_m nd = (if size_m this = 0 then 1 else (size_m this * 2) mod 2 ^ 64)"
      by auto
    with grown_capacity [of nd "size_m this"] full rng show ?thesis
      by (simp add: Capacity_def RawMemory_Capacity_def)
  qed
  show "Capacity this' = max 1 (2 * Capacity this)"
    if "Emplace T pos args this h = Normal r (this', h')"
    using that by (rule ins)
  show "Capacity this' = max 1 (2 * Capacity this)"
    if "Insert_copy T pos x this h = Normal r (this', h')"
    using that unfolding Insert_copy_def by (rule ins)
  show "Capacity this' = max 1 (2 * Capacity this)"
    if "Insert_move T pos x this h = Normal r (this', h')"
    using that unfolding Insert_move_def by (rule ins)
qed

theorem growth_doubles_capacity_witness:
  "size_m full2 = Capacity full2 \<and> 2 * Capacity full2 < 2 ^ 64 \<and>
   (\<exists>h'. EmplaceBack Obj (ConstRef 1) full2 (two_cells 7 8) =
            Normal 5 (\<lparr>data_m = \<lparr>buffer_m = 3, capacity_m = 4\<rparr>, size_m = 3\<rparr>, h') \<and>
          Capacity \<lparr>data_m = \<lparr>buffer_m = 3, capacity_m = 4\<rparr>, size_m = 3\<rparr> = max 1 (2 * Capacity full2)) \<and>
   (\<exists>h'. Emplace Obj 1 (CtorArgs (Some 9)) full2 (two_cells 7 8) =
            Normal 3 (\<lparr>data_m = \<lparr>buffer_m = 3, capacity_m = 4\<rparr>, size_m = 3\<rparr>, h') \<and>
          Capacity \<lparr>data_m = \<lparr>buffer_m = 3, capacity_m = 4\<rparr>, size_m = 3\<rparr> = max 1 (2 * Capacity full2))"
proof -
  have full: "size_m full2 = Capacity full2" and rng: "2 * Capacity full2 < 2 ^ 64"
    by (simp_all add: fixture_simps)
  have "\<exists>h'. EmplaceBack Obj (ConstRef 1) full2 (two_cells 7 8) =
            Normal 5 (\<lparr>data_m = \<lparr>buffer_m = 3, capacity_m = 4\<rparr>, size_m = 3\<rparr>, h')"
    unfolding EmplaceBack_def full2_def two_cells_def Obj_def
    by (simp add: object_defs store_defs RawMemory_defs Vector_defs Let_def loop_steps)
  then obtain h1 where e1: "EmplaceBack Obj (ConstRef 1) full2 (two_cells 7 8) =
            Normal 5 (\<lparr>data_m = \<lparr>buffer_m = 3, capacity_m = 4\<rparr>, size_m = 3\<rparr>, h1)" ..
  have "\<exists>h'. Emplace Obj 1 (CtorArgs (Some 9)) full2 (two_cells 7 8) =
            Normal 3 (\<lparr>data_m = \<lparr>buffer_m = 3, capacity_m = 4\<rparr>, size_m = 3\<rparr>, h')"
    unfolding Emplace_def full2_def two_cells_def Obj_def
    by (simp add: object_defs store_defs RawMemory_defs Vector_defs Let_def loop_steps)
  then obtain h2 where e2: "Emplace Obj 1 (CtorArgs (Some 9)) full2 (two_cells 7 8) =
            Normal 3 (\<lparr>data_m = \<lparr>buffer_m = 3, capacity_m = 4\<rparr>, size_m = 3\<rparr>, h2)" ..
  from growth_doubles_capacity [of full2 Obj "ConstRef 1" "two_cells 7 8" 5
         "\<lparr>data_m = \<lparr>buffer_m = 3, capacity_m = 4\<rparr>, size_m = 3\<rparr>" h1] full e1
  have c1: "Capacity \<lparr>data_m = \<lparr>buffer_m = 3, capacity_m = 4\<rparr>, size_m = 3\<rparr> = max 1 (2 * Capacity full2)"
    by blast
  with full rng e1 e2 show ?thesis by blast
qed

section \<open>Size within capacity\<close>

text \<open>
  Claim C6. For every operation of the public interface (construction, copy and move
  construction and assignment, Reserve, Resize, PushBack/EmplaceBack, Insert/Emplace,
  Erase, PopBack, Swap), the post-state satisfies the invariant
  \<open>0 \<le> Size() \<le> Capacity()\<close>.

  Every constructor returns an object that satisfies the invariant. Every other operation,
  started on objects that satisfy it, ends with objects that satisfy it, whether it returns
  or throws; the assignments are stated for the whole store of arrays. For Emplace and
  Insert at full capacity the doubled capacity has to fit \<^verbatim>\<open>size_t\<close>, as in the growth
  policy.
\<close>

theorem size_within_capacity:
  "invariant Vector_default \<and>
   constructed invariant (Vector_ctor_size T n h) \<and>
   constructed invariant (Vector_copy_ctor T other h) \<and>
   (invariant other \<longrightarrow>
      invariant (fst (Vector_move_ctor other)) \<and> invariant (snd (Vector_move_ctor other))) \<and>
   ((\<forall>v. invariant (objs v)) \<longrightarrow>
      holds_after (\<lambda>objs'. \<forall>v. invariant (objs' v)) (Vector_copy_assign T this_id rhs_id objs h) \<and>
      (\<forall>v. invariant (Vector_move_assign this_id rhs_id objs v))) \<and>
   (invariant this \<longrightarrow>
      holds_after invariant (Reserve T n this h) \<and>
      holds_after invariant (Resize T n this h) \<and>
      holds_after invariant (EmplaceBack T args this h) \<and>
      holds_after invariant (PushBack_copy T x this h) \<and>
      holds_after invariant (PushBack_move T x this h) \<and>
      holds_after invariant (Erase T pos this h) \<and>
      holds_after invariant (PopBack this h) \<and>
      (invariant other \<longrightarrow>
         invariant (fst (Vector_Swap (this, other))) \<and> invariant (snd (Vector_Swap (this, other)))) \<and>
      (2 * Capacity this < 2 ^ 64 \<longrightarrow>
         holds_after invariant (Emplace T pos args this h) \<and>
         holds_after invariant (Insert_copy T pos x this h) \<and>
         holds_after invariant (Insert_move T pos x this h)))"
proof (intro conjI impI allI)
  show "invariant Vector_default"
    by (simp add: invariant_def Vector_default_def RawMemory_default_def Size_def Capacity_def
          RawMemory_Capacity_def)
  show "constructed invariant (Vector_ctor_size T n h)" by (rule Vector_ctor_size_invariant)
  show "constructed invariant (Vector_copy_ctor T other h)" by (rule Vector_copy_ctor_invariant)
next
  assume "invariant other"
  then show "invariant (fst (Vector_move_ctor other))" "invariant (snd (Vector_move_ctor other))"
    by (simp_all add: Vector_move_ctor_def RawMemory_move_ctor_def invariant_def Size_def
          Capacity_def RawMemory_Capacity_def)
next
  assume "\<forall>v. invariant (objs v)"
  then show "holds_after (\<lambda>objs'. \<forall>v. invariant (objs' v)) (Vector_copy_assign T this_id rhs_id objs h)"
    by (rule Vector_copy_assign_invariant)
next
  fix v assume "\<forall>v. invariant (objs v)"
  then show "invariant (Vector_move_assign this_id rhs_id objs v)"
    by (simp add: Vector_move_assign_def)
next
  assume inv: "invariant this"
  show "holds_after invariant (Reserve T n this h)" by (rule Reserve_invariant [OF inv])
  show "holds_after invariant (Resize T n this h)" by (rule Resize_invariant [OF inv])
  show "holds_after invariant (EmplaceBack T args this h)" by (rule EmplaceBack_invariant [OF inv])
  show "holds_after invariant (PushBack_copy T x this h)"
    unfolding PushBack_copy_def by (rule holds_after_discard [OF EmplaceBack_invariant [OF inv]])
  show "holds_after invariant (PushBack_move T x this h)"
    unfolding PushBack_move_def by (rule holds_after_discard [OF EmplaceBack_invariant [OF inv]])
  show "holds_after invariant (Erase T pos this h)" by (rule Erase_invariant [OF inv])
  show "holds_after invariant (PopBack this h)" by (rule PopBack_invariant [OF inv])
  {
    assume "invariant other"
    with inv show "invariant (fst (Vector_Swap (this, other)))" "invariant (snd (Vector_Swap (this, other)))"
      by simp_all
  }
  {
    assume rng: "2 * Capacity this < 2 ^ 64"
    show "holds_after invariant (Emplace T pos args this h)" by (rule Emplace_invariant [OF inv rng])
    show "holds_after invariant (Insert_copy T pos x this h)"
      unfolding Insert_copy_def by (rule Emplace_invariant [OF inv rng])
    show "holds_after invariant (Insert_move T pos x this h)"
      unfolding Insert_move_def by (rule Emplace_invariant [OF inv rng])
  }
qed

theorem size_within_capacity_witness:
  "(\<forall>v. invariant (((\<lambda>_. Vector_default)(1 := full2)) v)) \<and> invariant full2 \<and>
   invariant Vector_default \<and> 2 * Capacity full2 < 2 ^ 64 \<and>
   holds_after (\<lambda>objs'. \<forall>v. invariant (objs' v))
     (Vector_copy_assign Obj 0 1 ((\<lambda>_. Vector_default)(1 := full2)) (two_cells 7 8)) \<and>
   holds_after invariant (Reserve Obj 5 full2 (two_cells 7 8)) \<and>
   holds_after invariant (Resize Obj 5 full2 (two_cells 7 8)) \<and>
   holds_after invariant (EmplaceBack Obj (ConstRef 1) full2 (two_cells 7 8)) \<and>
   holds_after invariant (Erase Obj 1 full2 (two_cells 7 8)) \<and>
   holds_after invariant (PopBack full2 (two_cells 7 8)) \<and>
   holds_after invariant (Emplace Obj 1 (ConstRef 1) full2 (two_cells 7 8)) \<and>
   (\<exists>h'. PopBack full2 (two_cells 7 8) = Normal () (full2\<lparr>size_m := 1\<rparr>, h') \<and>
         cell h' 1 = Live 7 \<and> cell h' 2 = Raw)"
proof -
  have inv: "invariant full2" "invariant Vector_default"
    by (simp_all add: invariant_def Size_def fixture_simps Vector_default_def RawMemory_default_def
          Capacity_def RawMemory_Capacity_def)
  have pop: "\<exists>h'. PopBack full2 (two_cells 7 8) = Normal () (full2\<lparr>size_m := 1\<rparr>, h') \<and>
         cell h' 1 = Live 7 \<and> cell h' 2 = Raw"
    by (simp add: PopBack_def full2_def two_cells_def GetAddress_def destroy_at_def cell_def)
  show ?thesis
    using size_within_capacity
      [where this = full2 and h = "two_cells 7 8" and T = Obj and n = 5 and other = Vector_default
         and objs = "(\<lambda>_. Vector_default)(1 := full2)" and this_id = 0 and rhs_id = 1
         and args = "ConstRef 1" and pos = 1 and x = 1]
      inv pop
    by (simp add: fixture_simps)
qed

section \<open>Erase\<close>

text \<open>
  Claim C7. For every array of size \<open>n\<close> and every position \<open>p\<close> within
  \<^verbatim>\<open>[begin, end)\<close>, \<^verbatim>\<open>Erase(p)\<close> shifts all elements after \<open>p\<close> one slot left by
  move-assignment, destroys the now-unused last slot, and decrements the length to
  \<open>n - 1\<close>, leaving the elements before \<open>p\<close> unchanged; it returns an iterator to the
  position, which then holds the element that followed the erased one, or equals
  \<^verbatim>\<open>end()\<close> if the erased element was last.

  For an array that represents \<open>xs\<close> and the position of index \<open>i < length xs\<close>: when
  no move-assignment of an element after the position throws, the call returns the position,
  the object has length \<open>length xs - 1\<close> and the same block, and it represents \<open>xs\<close>
  without its element \<open>i\<close>; the slot that was last holds no object any more; the
  position holds \<open>xs ! Suc i\<close>, or is \<^verbatim>\<open>end()\<close> of the shortened array when \<open>i\<close> was
  the last index. When a move-assignment throws, the exception propagates and the length is
  not decremented.
\<close>

theorem Erase_specification:
  assumes "represents this h xs" and "i < length xs"
  shows "if \<exists>x\<in>set (drop (Suc i) xs). move_assign_throws T x
         then \<exists>h'. Erase T (Vector_begin this + i) this h = Throw element_exception (this, h')
         else \<exists>h'. Erase T (Vector_begin this + i) this h =
                  Normal (Vector_begin this + i) (this\<lparr>size_m := length xs - 1\<rparr>, h') \<and>
                represents (this\<lparr>size_m := length xs - 1\<rparr>) h' (take i xs @ drop (Suc i) xs) \<and>
                cell h' (Vector_begin this + (length xs - 1)) = Raw \<and>
                (if Suc i < length xs then cell h' (Vector_begin this + i) = Live (xs ! Suc i)
                 else Vector_begin this + i = Vector_end (this\<lparr>size_m := length xs - 1\<rparr>))"
proof -
  define b where "b = buffer_m (data_m this)"
  define c where "c = capacity_m (data_m this)"
  define m where "m = length xs"
  define n where "n = m - Suc i"
  define f where "f = (\<lambda>k. xs ! (Suc i + k))"
  define pos where "pos = b + i"
  from assms(1) have sz: "size_m this = m" and mc: "m \<le> c"
    and blk: "if c = 0 then b = 0 else blocks h b = Some c"
    and cs: "\<forall>j<c. cell h (b + j) = (if j < m then Live (xs ! j) else Raw)"
    and spos: "0 < sizeof_T h" and fit: "c * sizeof_T h < 2 ^ 64"
    unfolding represents_iff b_def c_def m_def by blast+
  have im: "i < m" using assms(2) by (simp add: m_def)
  have beg: "Vector_begin this = b" by (simp add: Vector_begin_def GetAddress_def b_def)
  have en: "Vector_end this = b + m" by (simp add: Vector_end_def GetAddress_def b_def sz)
  have unf: "Erase T pos this h =
     (case move_loop T (pos + 1) n pos h of
        Normal _ h1 \<Rightarrow>
          on_object (this\<lparr>size_m := m - 1\<rparr>)
            (and_then (destroy_at (b + (m - 1)) h1) (\<lambda>_. Normal pos))
      | Throw e h1 \<Rightarrow> Throw e (this, h1)
      | Fault x \<Rightarrow> Fault x)"
  proof -
    have a: "Vector_end this - (pos + 1) = n" using im by (simp add: en pos_def n_def)
    have pre: "Vector_begin this \<le> pos" "pos < Vector_end this" "size_m this \<le> capacity_m (data_m this)"
      using im mc by (simp_all add: beg en pos_def sz c_def)
    show ?thesis
      unfolding Erase_unfold [OF pre] a sz b_def [symmetric] by (rule refl)
  qed
  have at: "cell h (b + j) = Live (xs ! j)" if "j < m" for j
  proof -
    from that mc have "j < c" by simp
    with cs have "cell h (b + j) = (if j < m then Live (xs ! j) else Raw)" by blast
    with that show ?thesis by simp
  qed
  have dst: "cell h pos = Live (xs ! i)" using at [OF im] by (simp add: pos_def)
  have src: "\<forall>k<n. cell h (pos + 1 + k) = Live (f k)"
  proof (intro allI impI)
    fix k assume "k < n"
    then have "Suc i + k < m" by (simp add: n_def)
    then have "cell h (b + (Suc i + k)) = Live (xs ! (Suc i + k))" by (rule at)
    then show "cell h (pos + 1 + k) = Live (f k)" by (simp add: pos_def f_def add.assoc)
  qed
  have thr_iff: "(\<exists>k<n. move_assign_throws T (f k)) \<longleftrightarrow> (\<exists>x\<in>set (drop (Suc i) xs). move_assign_throws T x)"
  proof -
    have "length (drop (Suc i) xs) = n" by (simp add: n_def m_def)
    moreover have "\<And>k. k < n \<Longrightarrow> drop (Suc i) xs ! k = f k"
      using im by (simp add: f_def n_def m_def)
    ultimately show ?thesis
      by (metis in_set_conv_nth)
  qed
  from move_loop_shift [OF dst src, of T] show ?thesis
  proof (elim disjE)
    assume "(\<exists>k<n. move_assign_throws T (f k)) \<and>
            (\<exists>h'. move_loop T (pos + 1) n pos h = Throw element_exception h')"
    then obtain h' where t: "\<exists>k<n. move_assign_throws T (f k)"
      and r: "move_loop T (pos + 1) n pos h = Throw element_exception h'" by blast
    have "Erase T pos this h = Throw element_exception (this, h')"
      unfolding unf r by simp
    then show ?thesis using t unfolding thr_iff beg pos_def by auto
  next
    define h1 where "h1 = h\<lparr>cells := (\<lambda>a. if pos \<le> a \<and> a < pos + n then Live (f (a - pos))
                              else if a = pos + n \<and> 0 < n then Live (moved_from T (f (n - 1)))
                              else cells h a)\<rparr>"
    assume "\<not> (\<exists>k<n. move_assign_throws T (f k)) \<and>
            move_loop T (pos + 1) n pos h =
              Normal () (h\<lparr>cells := (\<lambda>a. if pos \<le> a \<and> a < pos + n then Live (f (a - pos))
                              else if a = pos + n \<and> 0 < n then Live (moved_from T (f (n - 1)))
                              else cells h a)\<rparr>)"
    then have no: "\<not> (\<exists>k<n. move_assign_throws T (f k))"
      and r: "move_loop T (pos + 1) n pos h = Normal () h1" unfolding h1_def by blast+
    have last_in: "0 < b + (m - 1) \<and> b + (m - 1) \<le> brk h"
    proof -
      have "m - 1 < m" using im by simp
      then have "cell h (b + (m - 1)) = Live (xs ! (m - 1))" by (rule at)
      from cell_LiveD [OF this] show ?thesis by simp
    qed
    have pn: "pos + n = b + (m - 1)" using im by (simp add: pos_def n_def)
    have "\<exists>w. cell h1 (b + (m - 1)) = Live w"
    proof (cases "0 < n")
      case True
      then show ?thesis using last_in pn by (simp add: h1_def)
    next
      case False
      then have "b + (m - 1) = pos" using pn by simp
      then show ?thesis using False dst last_in by (simp add: cell_def h1_def)
    qed
    then obtain w where lw: "cell h1 (b + (m - 1)) = Live w" ..
    define h2 where "h2 = h1\<lparr>cells := (cells h1)(b + (m - 1) := Raw)\<rparr>"
    have d: "destroy_at (b + (m - 1)) h1 = Normal () h2"
      using lw by (simp add: destroy_at_def h2_def)
    have res: "Erase T pos this h = Normal pos (this\<lparr>size_m := m - 1\<rparr>, h2)"
      unfolding unf r outcome.case d by simp
    have c2: "cell h2 a = (if a = b + (m - 1) then Raw
                            else if pos \<le> a \<and> a < pos + n then Live (f (a - pos))
                            else cell h a)" if "0 < a \<and> a \<le> brk h" for a
      using that pn by (simp add: cell_def h1_def h2_def)
    have cells2: "\<forall>j<c. cell h2 (b + j) =
        (if j < m - 1 then Live ((take i xs @ drop (Suc i) xs) ! j) else Raw)"
    proof (intro allI impI)
      fix j assume jc: "j < c"
      with cs have old: "cell h (b + j) = (if j < m then Live (xs ! j) else Raw)" by blast
      have inj: "0 < b + j \<and> b + j \<le> brk h"
        using old by (cases "j < m") (auto dest: cell_LiveD cell_RawD)
      note here = c2 [OF inj]
      consider "j < i" | "i \<le> j" "j < m - 1" | "j = m - 1" | "m \<le> j" by linarith
      then show "cell h2 (b + j) =
        (if j < m - 1 then Live ((take i xs @ drop (Suc i) xs) ! j) else Raw)"
      proof cases
        case 1
        then have "b + j \<noteq> b + (m - 1)" "\<not> pos \<le> b + j" using im by (simp_all add: pos_def)
        then have "cell h2 (b + j) = cell h (b + j)" unfolding here by simp
        then show ?thesis using 1 im old by (simp add: nth_append m_def)
      next
        case 2
        then have "b + j \<noteq> b + (m - 1)" "pos \<le> b + j" "b + j < pos + n" "b + j - pos = j - i"
          unfolding pn by (simp_all add: pos_def)
        then have "cell h2 (b + j) = Live (f (j - i))" unfolding here by simp
        moreover have "(take i xs @ drop (Suc i) xs) ! j = f (j - i)"
          using 2 im by (simp add: nth_append f_def m_def)
        ultimately show ?thesis using 2 by simp
      next
        case 3
        then show ?thesis unfolding here by simp
      next
        case 4
        then have "b + j \<noteq> b + (m - 1)" "\<not> b + j < pos + n"
          unfolding pn using im by simp_all
        then have "cell h2 (b + j) = cell h (b + j)" unfolding here by simp
        then show ?thesis using 4 old by simp
      qed
    qed
    have blk2: "blocks h2 = blocks h" and size2: "sizeof_T h2 = sizeof_T h"
      by (simp_all add: h1_def h2_def)
    have rep: "represents (this\<lparr>size_m := m - 1\<rparr>) h2 (take i xs @ drop (Suc i) xs)"
      unfolding represents_iff
      using im mc blk cells2 spos fit
      by (simp add: blk2 size2 b_def [symmetric] c_def [symmetric] m_def [symmetric] min_def)
    have raw: "cell h2 (b + (m - 1)) = Raw" using c2 [OF last_in] by simp
    have it: "if Suc i < m then cell h2 pos = Live (xs ! Suc i)
              else pos = Vector_end (this\<lparr>size_m := m - 1\<rparr>)"
    proof (cases "Suc i < m")
      case True
      then have "i < c" "i < m - 1" using mc by simp_all
      with cells2 have "cell h2 (b + i) = Live ((take i xs @ drop (Suc i) xs) ! i)" by presburger
      then show ?thesis using True by (simp add: pos_def nth_append m_def)
    next
      case False
      then have "i = m - 1" using im by simp
      then show ?thesis using False by (simp add: pos_def Vector_end_def GetAddress_def b_def)
    qed
    have "\<not> (\<exists>x\<in>set (drop (Suc i) xs). move_assign_throws T x)" using no thr_iff by simp
    then show ?thesis
      using res rep raw it unfolding beg pos_def m_def by auto
  qed
qed


theorem Erase_specification_witness:
  "represents full2 (two_cells 7 8) [7, 8] \<and> (0::nat) < length [7::nat, 8] \<and>
   \<not> (\<exists>x\<in>set (drop (Suc 0) [7::nat, 8]). move_assign_throws Obj x) \<and>
   (\<exists>h'. Erase Obj (Vector_begin full2 + 0) full2 (two_cells 7 8) = Normal 1 (full2\<lparr>size_m := 1\<rparr>, h') \<and>
         represents (full2\<lparr>size_m := 1\<rparr>) h' [8] \<and> cell h' 2 = Raw \<and> cell h' 1 = Live 8) \<and>
   (\<exists>x\<in>set (drop (Suc 0) [7::nat, 13]). move_assign_throws Obj x) \<and>
   (\<exists>h'. Erase Obj (Vector_begin full2 + 0) full2 (two_cells 7 13) = Throw element_exception (full2, h'))"
proof -
  have b: "Vector_begin full2 = 1" by (simp add: Vector_begin_def GetAddress_def full2_def)
  show ?thesis
    using Erase_specification [OF represents_two_cells [of 7 8], where i = 0 and T = Obj]
      Erase_specification [OF represents_two_cells [of 7 13], where i = 0 and T = Obj]
    by (simp add: b fixture_simps represents_two_cells numeral_2_eq_2)
qed

section \<open>Copy assignment\<close>

text \<open>
  Claim C8. Copy-assignment from \<open>rhs\<close>: when the length of \<open>rhs\<close> exceeds this array's
  current capacity, a full temporary copy of \<open>rhs\<close> is built and swapped in, so that on
  failure this array is untouched; otherwise the existing capacity is reused: the common
  prefix is overwritten element by element, then either this array's surplus tail elements
  are destroyed (when this was longer) or the extra suffix of \<open>rhs\<close> is copy-constructed
  into the uninitialized tail (when \<open>rhs\<close> was longer); in both paths the final length
  equals the length of \<open>rhs\<close> and the contents equal the contents of \<open>rhs\<close>
  element-wise.

  For two different objects that represent \<open>xs\<close> and \<open>ys\<close> in blocks that do not
  overlap. When \<open>ys\<close> is longer than the capacity: if the store cannot serve the new
  block, \<open>bad_alloc\<close> leaves everything as it is; if the copy of an element throws, the
  exception leaves the same objects, representing \<open>xs\<close> and \<open>ys\<close>; otherwise this
  array owns a new block of exactly \<open>length ys\<close> cells and represents \<open>ys\<close>.
  When \<open>ys\<close> fits: the object keeps its block and, on return, has the length of
  \<open>ys\<close> and represents \<open>ys\<close>; if the assignment of element \<open>k\<close> of the common
  prefix throws, the array is left with its length and the first \<open>k\<close> elements
  overwritten; if the construction of an element of the suffix throws, the array is left
  with its length and all its elements overwritten. In every case \<open>rhs\<close> still
  represents \<open>ys\<close>.
\<close>

theorem copy_assignment_specification:
  assumes ne: "this \<noteq> rhs"
    and repA: "represents (objs this) h xs" and repB: "represents (objs rhs) h ys"
    and apart: "buffer_m (data_m (objs this)) + capacity_m (data_m (objs this)) \<le> buffer_m (data_m (objs rhs)) \<or>
                buffer_m (data_m (objs rhs)) + capacity_m (data_m (objs rhs)) \<le> buffer_m (data_m (objs this))"
  shows
   "if Capacity (objs this) < length ys then
      (if limit h < brk h + length ys then
         Vector_copy_assign T this rhs objs h = Throw bad_alloc (objs, h)
       else if \<exists>y\<in>set ys. copy_ctor_throws T y then
         \<exists>h'. Vector_copy_assign T this rhs objs h = Throw element_exception (objs, h') \<and>
              represents (objs this) h' xs \<and> represents (objs rhs) h' ys
       else
         \<exists>h'. Vector_copy_assign T this rhs objs h =
                Normal () (objs(this := \<lparr>data_m = \<lparr>buffer_m = brk h + 1, capacity_m = length ys\<rparr>,
                                          size_m = length ys\<rparr>), h') \<and>
              represents \<lparr>data_m = \<lparr>buffer_m = brk h + 1, capacity_m = length ys\<rparr>, size_m = length ys\<rparr> h' ys \<and>
              represents (objs rhs) h' ys)
    else
      (if \<exists>y\<in>set (take (length xs) ys). copy_assign_throws T y then
         \<exists>h' k. k < length xs \<and> k < length ys \<and> copy_assign_throws T (ys ! k) \<and>
              (\<forall>i<k. \<not> copy_assign_throws T (ys ! i)) \<and>
              Vector_copy_assign T this rhs objs h = Throw element_exception (objs, h') \<and>
              represents (objs this) h' (take k ys @ drop k xs) \<and> represents (objs rhs) h' ys
       else if \<exists>y\<in>set (drop (length xs) ys). copy_ctor_throws T y then
         \<exists>h'. Vector_copy_assign T this rhs objs h = Throw element_exception (objs, h') \<and>
              represents (objs this) h' (take (length xs) ys) \<and> represents (objs rhs) h' ys
       else
         \<exists>h'. Vector_copy_assign T this rhs objs h =
                Normal () (objs(this := (objs this)\<lparr>size_m := length ys\<rparr>), h') \<and>
              represents ((objs this)\<lparr>size_m := length ys\<rparr>) h' ys \<and> represents (objs rhs) h' ys)"
proof (cases "Capacity (objs this) < length ys")
  case True
  then have pos: "0 < length ys" by (cases ys) simp_all
  have szB: "size_m (objs rhs) = length ys" using repB by (simp add: represents_iff)
  have unf: "Vector_copy_assign T this rhs objs h =
        (case Vector_copy_ctor T (objs rhs) h of
           Normal tmp h1 \<Rightarrow> on_object (objs(this := tmp)) (Vector_dtor (objs this) h1)
         | Throw e h1 \<Rightarrow> Throw e (objs, h1)
         | Fault x \<Rightarrow> Fault x)"
    unfolding Vector_copy_assign_unfold [OF ne] szB if_P [OF True] ..
  define tmp where "tmp = \<lparr>data_m = \<lparr>buffer_m = brk h + 1, capacity_m = length ys\<rparr>, size_m = length ys\<rparr>"
  note ctor = Vector_copy_ctor_result [OF repB pos, of T, folded tmp_def]
  consider (bad) "limit h < brk h + length ys"
    | (throws) "\<not> limit h < brk h + length ys" "\<exists>y\<in>set ys. copy_ctor_throws T y"
    | (ok) "\<not> limit h < brk h + length ys" "\<not> (\<exists>y\<in>set ys. copy_ctor_throws T y)"
    by blast
  then show ?thesis
  proof cases
    case bad
    with ctor have "Vector_copy_ctor T (objs rhs) h = Throw bad_alloc h" by simp
    then have "Vector_copy_assign T this rhs objs h = Throw bad_alloc (objs, h)"
      unfolding unf by simp
    then show ?thesis using True bad by simp
  next
    case throws
    with ctor obtain h' where c: "Vector_copy_ctor T (objs rhs) h = Throw element_exception h'"
      and fr: "\<forall>v zs. represents v h zs \<longrightarrow> represents v h' zs"
      by auto
    have "Vector_copy_assign T this rhs objs h = Throw element_exception (objs, h')"
      unfolding unf c by simp
    moreover have "represents (objs this) h' xs" "represents (objs rhs) h' ys"
      using fr repA repB by blast+
    ultimately show ?thesis using True throws by auto
  next
    case ok
    with ctor obtain h1 where c: "Vector_copy_ctor T (objs rhs) h = Normal tmp h1"
      and new: "represents tmp h1 ys"
      and fr: "\<forall>v zs. represents v h zs \<longrightarrow> represents v h1 zs"
      by auto
    have repA1: "represents (objs this) h1 xs" and repB1: "represents (objs rhs) h1 ys"
      using fr repA repB by blast+
    from Vector_dtor_frame [OF repA1] obtain h2 where
      d: "Vector_dtor (objs this) h1 = Normal () h2"
      and fr2: "\<forall>v zs. represents v h1 zs \<longrightarrow>
              (buffer_m (data_m (objs this)) + capacity_m (data_m (objs this)) \<le> buffer_m (data_m v) \<or>
               buffer_m (data_m v) + capacity_m (data_m v) \<le> buffer_m (data_m (objs this))) \<longrightarrow>
              represents v h2 zs"
      by blast
    have "buffer_m (data_m (objs this)) + capacity_m (data_m (objs this)) \<le> buffer_m (data_m tmp)"
      using represents_below_break [OF repA] by (simp add: tmp_def)
    with fr2 new have new2: "represents tmp h2 ys" by blast
    from fr2 repB1 apart have repB2: "represents (objs rhs) h2 ys" by blast
    have "Vector_copy_assign T this rhs objs h = Normal () (objs(this := tmp), h2)"
      unfolding unf c by (simp add: d)
    then show ?thesis
      using True ok new2 repB2 unfolding tmp_def by auto
  qed
next
  case False
  have szB: "size_m (objs rhs) = length ys" using repB by (simp add: represents_iff)
  have fits: "length ys \<le> capacity_m (data_m (objs this))"
    using False by (simp add: Capacity_def RawMemory_Capacity_def)
  have unf: "Vector_copy_assign T this rhs objs h =
        (case CopyAssignNoRealloc T (objs this) (objs rhs) h of
           Normal r s \<Rightarrow> Normal r (objs(this := fst s), snd s)
         | Throw e s \<Rightarrow> Throw e (objs(this := fst s), snd s)
         | Fault x \<Rightarrow> Fault x)"
    unfolding Vector_copy_assign_unfold [OF ne] szB if_not_P [OF False] ..
  note body = CopyAssignNoRealloc_result [OF repA repB apart fits, of T]
  consider (assign) "\<exists>y\<in>set (take (length xs) ys). copy_assign_throws T y"
    | (construct) "\<not> (\<exists>y\<in>set (take (length xs) ys). copy_assign_throws T y)"
        "\<exists>y\<in>set (drop (length xs) ys). copy_ctor_throws T y"
    | (ok) "\<not> (\<exists>y\<in>set (take (length xs) ys). copy_assign_throws T y)"
        "\<not> (\<exists>y\<in>set (drop (length xs) ys). copy_ctor_throws T y)"
    by blast
  then show ?thesis
  proof cases
    case assign
    with body obtain h' k where k: "k < length xs" "k < length ys" "copy_assign_throws T (ys ! k)"
        "\<forall>i<k. \<not> copy_assign_throws T (ys ! i)"
      and r: "CopyAssignNoRealloc T (objs this) (objs rhs) h = Throw element_exception (objs this, h')"
      and reps: "represents (objs this) h' (take k ys @ drop k xs)" "represents (objs rhs) h' ys"
      by auto
    have "Vector_copy_assign T this rhs objs h = Throw element_exception (objs, h')"
      unfolding unf r by simp
    with k reps show ?thesis using False assign by auto
  next
    case construct
    with body obtain h' where
      r: "CopyAssignNoRealloc T (objs this) (objs rhs) h = Throw element_exception (objs this, h')"
      and reps: "represents (objs this) h' (take (length xs) ys)" "represents (objs rhs) h' ys"
      by auto
    have "Vector_copy_assign T this rhs objs h = Throw element_exception (objs, h')"
      unfolding unf r by simp
    with reps show ?thesis using False construct by auto
  next
    case ok
    with body obtain h' where
      r: "CopyAssignNoRealloc T (objs this) (objs rhs) h =
            Normal () ((objs this)\<lparr>size_m := length ys\<rparr>, h')"
      and reps: "represents ((objs this)\<lparr>size_m := length ys\<rparr>) h' ys" "represents (objs rhs) h' ys"
      by auto
    have "Vector_copy_assign T this rhs objs h =
        Normal () (objs(this := (objs this)\<lparr>size_m := length ys\<rparr>), h')"
      unfolding unf r by simp
    with reps show ?thesis using False ok by auto
  qed
qed

theorem copy_assignment_specification_witness:
  "(10::nat) \<noteq> 20 \<and>
   represents (two_arrays 10) (three_cells 7 8 9) [7, 8] \<and>
   represents (two_arrays 20) (three_cells 7 8 9) [9] \<and>
   (\<exists>h'. Vector_copy_assign Obj 10 20 two_arrays (three_cells 7 8 9) =
            Normal () (two_arrays(10 := full2\<lparr>size_m := 1\<rparr>), h') \<and>
          represents (full2\<lparr>size_m := 1\<rparr>) h' [9] \<and> represents single3 h' [9]) \<and>
   (\<exists>h'. Vector_copy_assign Obj 20 10 two_arrays (three_cells 7 8 9) =
            Normal () (two_arrays(20 := \<lparr>data_m = \<lparr>buffer_m = 4, capacity_m = 2\<rparr>, size_m = 2\<rparr>), h') \<and>
          represents \<lparr>data_m = \<lparr>buffer_m = 4, capacity_m = 2\<rparr>, size_m = 2\<rparr> h' [7, 8] \<and>
          represents full2 h' [7, 8]) \<and>
   (\<exists>h'. Vector_copy_assign Obj 20 10 two_arrays (three_cells 7 13 9) =
            Throw element_exception (two_arrays, h') \<and>
          represents single3 h' [9] \<and> represents full2 h' [7, 13])"
proof -
  have ne: "(10::nat) \<noteq> 20" "(20::nat) \<noteq> 10" by simp_all
  have r1: "represents (two_arrays 10) (three_cells a b c) [a, b]"
    and r2: "represents (two_arrays 20) (three_cells a b c) [c]" for a b c
    by (simp_all add: fixture_simps3 represents_three_cells)
  have a12: "buffer_m (data_m (two_arrays 10)) + capacity_m (data_m (two_arrays 10)) \<le> buffer_m (data_m (two_arrays 20)) \<or>
             buffer_m (data_m (two_arrays 20)) + capacity_m (data_m (two_arrays 20)) \<le> buffer_m (data_m (two_arrays 10))"
    and a21: "buffer_m (data_m (two_arrays 20)) + capacity_m (data_m (two_arrays 20)) \<le> buffer_m (data_m (two_arrays 10)) \<or>
             buffer_m (data_m (two_arrays 10)) + capacity_m (data_m (two_arrays 10)) \<le> buffer_m (data_m (two_arrays 20))"
    by (simp_all add: fixture_simps3 fixture_simps)
  show ?thesis
    using copy_assignment_specification [OF ne(1) r1 [of 7 8 9] r2 [of 7 8 9] a12, of Obj]
      copy_assignment_specification [OF ne(2) r2 [of 7 8 9] r1 [of 7 8 9] a21, of Obj]
      copy_assignment_specification [OF ne(2) r2 [of 7 13 9] r1 [of 7 13 9] a21, of Obj]
    by (simp add: represents_three_cells fixture_simps3 fixture_simps numeral_2_eq_2)
qed

end
